theory Spec2Isabelle
  imports Main "HOL-Library.Word" "HOL-Library.Monad_Syntax"
begin

unbundle bit_operations_syntax

section \<open>The TCP session state machine of \<^verbatim>\<open>src/proto/tcp_ssn.cc\<close>\<close>

text \<open>
  The embedding follows the source function by function. \<^verbatim>\<open>uint8_t\<close> and
  \<^verbatim>\<open>uint32_t\<close> are words of that width, \<^verbatim>\<open>size_t\<close> is a 64-bit word (an LP64
  platform), \<^verbatim>\<open>time_t\<close> is a 64-bit word read as a signed number (\<open>sint\<close>), with the
  two's complement sum where the addition overflows. A failed \<^verbatim>\<open>assert\<close> aborts the
  program: the functions that assert return \<open>None\<close> there.
\<close>

subsection \<open>Types and constants\<close>

type_synonym time_t = "64 word"

datatype TcpStat = CLOSED | LISTEN | SYN_SENT | SYN_RCVD | ESTABLISHED | CLOSING | TIME_WAIT

text \<open>
  Modelled from the spec: the enumeration \<^verbatim>\<open>FlowDir\<close> is declared in
  \<^verbatim>\<open>swarm/decode.hpp\<close>, which is not among the sources; the spec gives its three values
  NIL, L2R and R2L.
\<close>

datatype FlowDir = DIR_NIL | DIR_L2R | DIR_R2L

definition FIN :: "8 word" where "FIN = 0x01"
definition SYN :: "8 word" where "SYN = 0x02"
definition RST :: "8 word" where "RST = 0x04"
definition PUSH :: "8 word" where "PUSH = 0x08"
definition ACK :: "8 word" where "ACK = 0x10"
definition URG :: "8 word" where "URG = 0x20"
definition ECE :: "8 word" where "ECE = 0x40"
definition CWR :: "8 word" where "CWR = 0x80"

subsection \<open>\<^verbatim>\<open>TcpSession::Node\<close>: one endpoint\<close>

record Node =
  base_seq :: "32 word"
  sent_len :: "32 word"
  next_ack :: "32 word"
  avail_seq :: bool
  avail_ack :: bool
  stat :: TcpStat
  recv_fin :: bool
  recv_finack :: bool
  sent_finack :: bool
  updated :: bool

text \<open>The constructor \<^verbatim>\<open>Node()\<close>; the \<^verbatim>\<open>memset\<close> of the session's constructor
  writes the same values (\<^verbatim>\<open>CLOSED\<close> is the enumerator 0).\<close>

definition Node_new :: Node where
  "Node_new = \<lparr> base_seq = 0, sent_len = 0, next_ack = 0,
                avail_seq = False, avail_ack = False, stat = CLOSED,
                recv_fin = False, recv_finack = False, sent_finack = False,
                updated = False \<rparr>"

definition update_stat :: "TcpStat \<Rightarrow> Node \<Rightarrow> Node" where
  "update_stat st n = n\<lparr> stat := st, updated := True \<rparr>"

text \<open>The condition of the \<^verbatim>\<open>assert\<close> that opens \<^verbatim>\<open>recv\<close> and \<^verbatim>\<open>send\<close>.\<close>

definition flags_masked :: "8 word \<Rightarrow> bool" where
  "flags_masked flags \<longleftrightarrow> (NOT (SYN OR ACK OR FIN OR RST)) AND flags = 0"

text \<open>\<^verbatim>\<open>x += data_len\<close> on a \<^verbatim>\<open>uint32_t x\<close> and a \<^verbatim>\<open>size_t data_len\<close>: the sum is
  taken in \<^verbatim>\<open>size_t\<close> and stored back in 32 bits.\<close>

definition add_len :: "32 word \<Rightarrow> 64 word \<Rightarrow> 32 word" where
  "add_len x data_len = ucast ((ucast x :: 64 word) + data_len)"

definition recv :: "8 word \<Rightarrow> 32 word \<Rightarrow> 32 word \<Rightarrow> 64 word \<Rightarrow> Node \<Rightarrow> (bool \<times> Node) option" where
  "recv flags seq ack data_len n0 =
    (if \<not> flags_masked flags then None
     else
       let n1 = n0\<lparr> updated := False \<rparr>;
           n2 = (case stat n1 of
                   CLOSED \<Rightarrow>
                     if flags = SYN
                     then (update_stat LISTEN n1)\<lparr> next_ack := seq + 1, avail_ack := True \<rparr>
                     else n1
                 | LISTEN \<Rightarrow> n1
                 | SYN_SENT \<Rightarrow>
                     if flags = (SYN OR ACK)
                     then n1\<lparr> next_ack := seq + 1, avail_ack := True \<rparr>
                     else n1
                 | SYN_RCVD \<Rightarrow> n1
                 | ESTABLISHED \<Rightarrow>
                     if 0 < (flags AND FIN) then n1\<lparr> recv_fin := True \<rparr> else n1
                 | CLOSING \<Rightarrow>
                     let a = (if 0 < (flags AND FIN) then n1\<lparr> recv_fin := True \<rparr> else n1);
                         b = (if 0 < (flags AND ACK) then a\<lparr> recv_finack := True \<rparr> else a)
                     in if recv_fin b \<and> recv_finack b \<and> sent_finack b
                        then update_stat TIME_WAIT b else b
                 | TIME_WAIT \<Rightarrow> n1);
           n3 = (if stat n2 = ESTABLISHED \<or> stat n2 = SYN_RCVD
                 then n2\<lparr> next_ack := add_len (next_ack n2) data_len \<rparr> else n2)
       in Some (True, n3))"

definition send :: "8 word \<Rightarrow> 32 word \<Rightarrow> 32 word \<Rightarrow> 64 word \<Rightarrow> Node \<Rightarrow> (bool \<times> Node) option" where
  "send flags seq ack data_len n0 =
    (if \<not> flags_masked flags then None
     else
       let n1 = n0\<lparr> updated := False \<rparr>;
           n2 = (case stat n1 of
                   CLOSED \<Rightarrow>
                     if flags = SYN
                     then (update_stat SYN_SENT n1)\<lparr> base_seq := seq, avail_seq := True \<rparr>
                     else n1
                 | LISTEN \<Rightarrow>
                     if flags = (SYN OR ACK)
                     then (update_stat SYN_RCVD n1)\<lparr> base_seq := seq, avail_seq := True \<rparr>
                     else n1
                 | SYN_SENT \<Rightarrow>
                     if flags = ACK then update_stat ESTABLISHED n1 else n1
                 | SYN_RCVD \<Rightarrow>
                     if flags = FIN then update_stat CLOSING n1
                     else update_stat ESTABLISHED n1
                 | ESTABLISHED \<Rightarrow>
                     let a = (if 0 < (flags AND FIN) then update_stat CLOSING n1 else n1)
                     in if recv_fin a \<and> 0 < (flags AND ACK)
                        then a\<lparr> sent_finack := True \<rparr> else a
                 | CLOSING \<Rightarrow>
                     if recv_fin n1 \<and> 0 < (flags AND ACK)
                     then n1\<lparr> sent_finack := True \<rparr> else n1
                 | TIME_WAIT \<Rightarrow> n1);
           n3 = (if stat n2 = ESTABLISHED
                 then n2\<lparr> sent_len := add_len (sent_len n2) data_len \<rparr> else n2)
       in Some (True, n3))"

definition check_seq :: "Node \<Rightarrow> 32 word \<Rightarrow> 32 word \<Rightarrow> bool" where
  "check_seq n seq ack =
    (if (\<not> avail_seq n \<or> base_seq n + sent_len n + 1 \<le> seq) \<and>
        (\<not> avail_ack n \<or> next_ack n \<noteq> 0)
     then True else False)"

subsection \<open>\<^verbatim>\<open>TcpSession\<close>: one flow\<close>

record TcpSession =
  key :: "8 word list"
  hash :: "64 word"
  ts :: time_t
  server :: Node
  client :: Node
  dir :: FlowDir

text \<open>The constructor copies the key (\<^verbatim>\<open>key_\<close> with \<^verbatim>\<open>len_\<close> is the byte list) and
  leaves \<^verbatim>\<open>ts_\<close> unset; its only caller, \<^verbatim>\<open>fetch_session\<close>, sets it before anything
  reads it, so the model starts it at 0.\<close>

definition TcpSession_new :: "8 word list \<Rightarrow> 64 word \<Rightarrow> TcpSession" where
  "TcpSession_new k h =
     \<lparr> key = k, hash = h, ts = 0, server = Node_new, client = Node_new, dir = DIR_NIL \<rparr>"

definition set_ts :: "time_t \<Rightarrow> TcpSession \<Rightarrow> TcpSession" where
  "set_ts t s = s\<lparr> ts := t \<rparr>"

definition match :: "TcpSession \<Rightarrow> 8 word list \<Rightarrow> bool" where
  "match s k \<longleftrightarrow> length (key s) = length k \<and> key s = k"

definition to_server :: "TcpSession \<Rightarrow> FlowDir \<Rightarrow> bool" where
  "to_server s d \<longleftrightarrow> dir s = d \<and> dir s \<noteq> DIR_NIL"

definition to_client :: "TcpSession \<Rightarrow> FlowDir \<Rightarrow> bool" where
  "to_client s d \<longleftrightarrow> dir s \<noteq> d \<and> dir s \<noteq> DIR_NIL"

definition server_stat :: "TcpSession \<Rightarrow> TcpStat" where
  "server_stat s = stat (server s)"

definition client_stat :: "TcpSession \<Rightarrow> TcpStat" where
  "client_stat s = stat (client s)"

definition is_data_available :: "TcpSession \<Rightarrow> FlowDir \<Rightarrow> bool" where
  "is_data_available s d =
     (let sender = (if dir s = d then client s else server s)
      in if \<not> updated sender \<and> stat sender = ESTABLISHED then True else False)"

text \<open>\<^verbatim>\<open>TcpSession::update\<close>. The results of \<^verbatim>\<open>send\<close> and \<^verbatim>\<open>recv\<close> are dropped, as
  in the source; \<open>None\<close> is a failed assertion.\<close>

definition update ::
  "8 word \<Rightarrow> 32 word \<Rightarrow> 32 word \<Rightarrow> 64 word \<Rightarrow> FlowDir \<Rightarrow> TcpSession \<Rightarrow> (bool \<times> TcpSession) option"
where
  "update flags seq ack data_len d s =
    (let f = flags AND (FIN OR SYN OR RST OR ACK) in
     if dir s = DIR_NIL then
       (if f = SYN then
          do {
            let s1 = s\<lparr> dir := d \<rparr>;
            (_, c) \<leftarrow> send f seq ack data_len (client s1);
            (_, v) \<leftarrow> recv f seq ack data_len (server s1);
            Some (True, s1\<lparr> server := v, client := c \<rparr>)
          }
        else Some (False, s))
     else if to_server s d then
       (if check_seq (client s) seq ack then
          do {
            (_, c) \<leftarrow> send f seq ack data_len (client s);
            (_, v) \<leftarrow> recv f seq ack data_len (server s);
            Some (True, s\<lparr> server := v, client := c \<rparr>)
          }
        else Some (False, s))
     else if \<not> to_client s d then None
     else
       (if check_seq (server s) seq ack then
          do {
            (_, v) \<leftarrow> send f seq ack data_len (server s);
            (_, c) \<leftarrow> recv f seq ack data_len (client s);
            Some (True, s\<lparr> server := v, client := c \<rparr>)
          }
        else Some (False, s)))"

text \<open>A packet as \<^verbatim>\<open>update\<close> receives it, and a run of \<^verbatim>\<open>update\<close> calls on one
  session, for the properties that speak of sequences of packets.\<close>

record Segment =
  seg_flags :: "8 word"
  seg_seq :: "32 word"
  seg_ack :: "32 word"
  seg_len :: "64 word"
  seg_dir :: FlowDir

definition update_seg :: "Segment \<Rightarrow> TcpSession \<Rightarrow> (bool \<times> TcpSession) option" where
  "update_seg p s = update (seg_flags p) (seg_seq p) (seg_ack p) (seg_len p) (seg_dir p) s"

fun updates :: "Segment list \<Rightarrow> TcpSession \<Rightarrow> TcpSession option" where
  "updates [] s = Some s"
| "updates (p # ps) s =
     (case update_seg p s of None \<Rightarrow> None | Some (_, s') \<Rightarrow> updates ps s')"

definition masked :: "8 word \<Rightarrow> 8 word" where
  "masked flags = flags AND (FIN OR SYN OR RST OR ACK)"


section \<open>The session table\<close>

text \<open>
  Modelled from the spec: the class \<^verbatim>\<open>LRUHash\<close> (\<^verbatim>\<open>utils/lru_hash.hpp\<close>) is not
  among the sources. The model follows the contract the spec gives for the session table:
  a logical clock, live entries each with a deadline (its bucket of the time wheel), a
  queue of expired entries, and a capacity cap. The table holds pointers; \<open>addr\<close> is the
  address of a session object. The two constructor arguments are the size of the time
  wheel and the capacity.
\<close>

type_synonym addr = nat

record LRUHash =
  max_ttl :: nat
  capacity :: nat
  clock :: nat
  live :: "(nat \<times> addr) list"
  expired :: "addr list"

definition LRUHash_new :: "nat \<Rightarrow> nat \<Rightarrow> LRUHash" where
  "LRUHash_new wheel cap =
     \<lparr> max_ttl = wheel, capacity = cap, clock = 0, live = [], expired = [] \<rparr>"

text \<open>Modelled from the spec: the oldest live bucket is forcibly expired. The oldest
  bucket holds the live entries with the least deadline; they join the expired queue in
  the order of their insertion.\<close>

definition expire_oldest :: "LRUHash \<Rightarrow> LRUHash" where
  "expire_oldest t =
     (case live t of
        [] \<Rightarrow> t
      | e # es \<Rightarrow>
          (let oldest = fold min (map fst es) (fst e)
           in t\<lparr> live := filter (\<lambda>x. fst x \<noteq> oldest) (live t),
                 expired := expired t @ map snd (filter (\<lambda>x. fst x = oldest) (live t)) \<rparr>))"

text \<open>Modelled from the spec: \<^verbatim>\<open>put(ttl, entry)\<close> inserts with an expiration \<^verbatim>\<open>ttl\<close>
  time units into the future, measured in the table's own logical clock; when the put
  would exceed the capacity (the table already has that many live entries), the oldest
  live bucket is forcibly expired first.\<close>

definition LRU_put :: "nat \<Rightarrow> addr \<Rightarrow> LRUHash \<Rightarrow> LRUHash" where
  "LRU_put ttl a t =
     (let t1 = (if capacity t \<le> length (live t) then expire_oldest t else t)
      in t1\<lparr> live := live t1 @ [(clock t1 + ttl, a)] \<rparr>)"

text \<open>Modelled from the spec: \<^verbatim>\<open>prog(delta)\<close> advances the logical clock by
  \<^verbatim>\<open>delta\<close> units, moving the entries whose deadline has passed into the expired queue,
  one traversed bucket after the other and first in first out within a bucket.\<close>

definition LRU_prog :: "nat \<Rightarrow> LRUHash \<Rightarrow> LRUHash" where
  "LRU_prog delta t =
     (let c = clock t + delta;
          out = filter (\<lambda>e. fst e < c) (live t);
          keep = filter (\<lambda>e. \<not> fst e < c) (live t)
      in t\<lparr> clock := c, live := keep, expired := expired t @ map snd (sort_key fst out) \<rparr>)"

text \<open>Modelled from the spec: \<^verbatim>\<open>pop()\<close> removes and returns one expired entry, none
  when the expired queue is empty.\<close>

definition LRU_pop :: "LRUHash \<Rightarrow> addr option \<times> LRUHash" where
  "LRU_pop t =
     (case expired t of
        [] \<Rightarrow> (None, t)
      | a # rest \<Rightarrow> (Some a, t\<lparr> expired := rest \<rparr>))"

text \<open>Modelled from the spec: \<^verbatim>\<open>get(hash, key, len)\<close> returns the entry with that hash
  and key, or none, and does not touch the entry's expiration. Equality is decided by
  the node's own \<^verbatim>\<open>hash()\<close> and \<^verbatim>\<open>match()\<close>, so \<^verbatim>\<open>get\<close> reads the objects the
  table points to.\<close>

definition LRU_get ::
  "(addr \<rightharpoonup> TcpSession) \<Rightarrow> 64 word \<Rightarrow> 8 word list \<Rightarrow> LRUHash \<Rightarrow> addr option"
where
  "LRU_get h hv k t =
     find (\<lambda>a. case h a of None \<Rightarrow> False | Some s \<Rightarrow> hash s = hv \<and> match s k)
          (map snd (live t) @ expired t)"

section \<open>The registry and the packet's Property\<close>

text \<open>
  Modelled from the spec: \<^verbatim>\<open>NetDec\<close> and \<^verbatim>\<open>Property\<close> (\<^verbatim>\<open>swarm/decode.hpp\<close>) are
  not among the sources. Of the registry the spec says that \<^verbatim>\<open>assign_event\<close> and
  \<^verbatim>\<open>assign_value\<close> take a name and a description and return an id; the model keeps
  the names in the order of registration and returns the position. Of the Property it
  lists the accessors the decoder reads (\<^verbatim>\<open>tv_sec\<close>, \<^verbatim>\<open>dir\<close>, \<^verbatim>\<open>remain\<close>,
  \<^verbatim>\<open>ssn_label\<close>, \<^verbatim>\<open>hash_value\<close>, and the values the TCP decoder stored under
  \<^verbatim>\<open>tcp.flags\<close>, \<^verbatim>\<open>tcp.seq\<close>, \<^verbatim>\<open>tcp.ack\<close>, here already in host byte order) and the
  three writers \<^verbatim>\<open>copy\<close>, \<^verbatim>\<open>set\<close> and \<^verbatim>\<open>push_event\<close>, which the model records
  in the order of the calls. The payload slice that \<^verbatim>\<open>set\<close> attaches is recorded by its
  length.
\<close>

type_synonym ev_id = nat
type_synonym val_id = nat

record NetDec =
  event_names :: "string list"
  value_names :: "string list"

text \<open>Modelled from the spec: \<^verbatim>\<open>assign_event(name, description)\<close> and
  \<^verbatim>\<open>assign_value(name, description)\<close> return the id of what they register.\<close>

definition assign_event :: "string \<Rightarrow> NetDec \<Rightarrow> ev_id \<times> NetDec" where
  "assign_event name nd =
     (length (event_names nd), nd\<lparr> event_names := event_names nd @ [name] \<rparr>)"

definition assign_value :: "string \<Rightarrow> NetDec \<Rightarrow> val_id \<times> NetDec" where
  "assign_value name nd =
     (length (value_names nd), nd\<lparr> value_names := value_names nd @ [name] \<rparr>)"

datatype Var = BoolVar bool | StatVar TcpStat | Slice "64 word"

record Property =
  tv_sec :: time_t
  pdir :: FlowDir
  remain :: "64 word"
  ssn_label :: "8 word list"
  hash_value :: "64 word"
  tcp_flags :: "8 word"
  tcp_seq :: "32 word"
  tcp_ack :: "32 word"
  vars :: "(val_id \<times> Var) list"
  events :: "ev_id list"

text \<open>Modelled from the spec: \<^verbatim>\<open>copy(id, value, len)\<close> attaches a copied value,
  \<^verbatim>\<open>set(id, slice, len)\<close> attaches a byte slice, \<^verbatim>\<open>push_event(event_id)\<close> enqueues
  an event.\<close>

definition copy :: "val_id \<Rightarrow> Var \<Rightarrow> Property \<Rightarrow> Property" where
  "copy i v p = p\<lparr> vars := vars p @ [(i, v)] \<rparr>"

definition set_var :: "val_id \<Rightarrow> 64 word \<Rightarrow> Property \<Rightarrow> Property" where
  "set_var i n p = p\<lparr> vars := vars p @ [(i, Slice n)] \<rparr>"

definition push_event :: "ev_id \<Rightarrow> Property \<Rightarrow> Property" where
  "push_event e p = p\<lparr> events := events p @ [e] \<rparr>"

section \<open>\<^verbatim>\<open>TcpSsnDecoder\<close>\<close>

text \<open>
  The decoder owns every session through its table. The record holds the fields of the
  class and, in \<open>objs\<close> and \<open>next_obj\<close>, the session objects it has allocated with
  \<^verbatim>\<open>new\<close> and the next unused address; \<^verbatim>\<open>delete\<close> removes the object.
\<close>

record TcpSsnDecoder =
  EV_EST :: ev_id
  EV_DATA :: ev_id
  P_SEG :: val_id
  P_TO_SERVER :: val_id
  P_SERVER_STAT :: val_id
  P_CLIENT_STAT :: val_id
  ssn_table :: LRUHash
  last_ts :: time_t
  objs :: "addr \<rightharpoonup> TcpSession"
  next_obj :: addr

definition TIMEOUT :: time_t where
  "TIMEOUT = 300"

definition TcpSsnDecoder_new :: "NetDec \<Rightarrow> TcpSsnDecoder \<times> NetDec" where
  "TcpSsnDecoder_new nd0 =
     (let (ev_est, nd1) = assign_event ''tcp_ssn.established'' nd0;
          (ev_data, nd2) = assign_event ''tcp_ssn.data'' nd1;
          (p_seg, nd3) = assign_value ''tcp_ssn.segment'' nd2;
          (p_to_server, nd4) = assign_value ''tcp_ssn.to_server'' nd3;
          (p_server_stat, nd5) = assign_value ''tcp_ssn.server_stat'' nd4;
          (p_client_stat, nd6) = assign_value ''tcp_ssn.client_stat'' nd5
      in (\<lparr> EV_EST = ev_est, EV_DATA = ev_data, P_SEG = p_seg,
             P_TO_SERVER = p_to_server, P_SERVER_STAT = p_server_stat,
             P_CLIENT_STAT = p_client_stat,
             ssn_table = LRUHash_new 3600 0xffff, last_ts = 0,
             objs = Map.empty, next_obj = 0 \<rparr>, nd6))"

text \<open>What \<^verbatim>\<open>timeout_session\<close> does to the table, in the order of the calls; the log
  is only returned, nothing reads it.\<close>

datatype table_call = Prog nat | Pop addr | Delete addr | Put nat addr

text \<open>The \<^verbatim>\<open>while\<close> loop of \<^verbatim>\<open>timeout_session\<close>. A popped node that is not a session
  makes the \<^verbatim>\<open>dynamic_cast\<close> null, which ends the loop as an empty queue does. The loop
  need not end: \<open>None\<close> is a run that does not return.\<close>

partial_function (option) timeout_loop ::
  "time_t \<Rightarrow> TcpSsnDecoder \<Rightarrow> (TcpSsnDecoder \<times> table_call list) option"
where
  "timeout_loop tv d =
     (case LRU_pop (ssn_table d) of
        (None, t) \<Rightarrow> Some (d\<lparr> ssn_table := t \<rparr>, [])
      | (Some a, t) \<Rightarrow>
          (case objs d a of
             None \<Rightarrow> Some (d\<lparr> ssn_table := t \<rparr>, [Pop a])
           | Some outdated_ssn \<Rightarrow>
               if sint (ts outdated_ssn + TIMEOUT) < sint tv
               then
                 timeout_loop tv (d\<lparr> ssn_table := t, objs := (objs d)(a := None) \<rparr>)
                   \<bind> (\<lambda>(d', calls). Some (d', Pop a # Delete a # calls))
               else
                 timeout_loop tv (d\<lparr> ssn_table := LRU_put (unat TIMEOUT) a t \<rparr>)
                   \<bind> (\<lambda>(d', calls). Some (d', Pop a # Put (unat TIMEOUT) a # calls))))"

definition timeout_session ::
  "time_t \<Rightarrow> TcpSsnDecoder \<Rightarrow> (TcpSsnDecoder \<times> table_call list) option"
where
  "timeout_session tv d =
     (let (d1, progs) =
            (if 0 < sint (last_ts d) \<and> sint (last_ts d) < sint tv
             then (d\<lparr> ssn_table := LRU_prog (unat (tv - last_ts d)) (ssn_table d) \<rparr>,
                   [Prog (unat (tv - last_ts d))])
             else (d, []));
          d2 = d1\<lparr> last_ts := tv \<rparr>
      in timeout_loop tv d2 \<bind> (\<lambda>(d3, calls). Some (d3, progs @ calls)))"

definition fetch_session :: "Property \<Rightarrow> TcpSsnDecoder \<Rightarrow> addr \<times> TcpSsnDecoder" where
  "fetch_session p d =
     (let (a, d1) =
            (case LRU_get (objs d) (hash_value p) (ssn_label p) (ssn_table d) of
               Some a \<Rightarrow> (a, d)
             | None \<Rightarrow>
                 (let a = next_obj d
                  in (a, d\<lparr> objs := (objs d)(a \<mapsto> TcpSession_new (ssn_label p) (hash_value p)),
                            next_obj := Suc a,
                            ssn_table := LRU_put (unat TIMEOUT) a (ssn_table d) \<rparr>)))
      in (a, d1\<lparr> objs := (objs d1)(a := map_option (set_ts (tv_sec p)) (objs d1 a)) \<rparr>))"

text \<open>\<^verbatim>\<open>decode\<close>. \<open>None\<close> is a call that does not return: the timeout loop runs on,
  an assertion inside \<^verbatim>\<open>update\<close> fails, or the session pointer points to no object.\<close>

definition decode :: "Property \<Rightarrow> TcpSsnDecoder \<Rightarrow> (bool \<times> Property \<times> TcpSsnDecoder) option" where
  "decode p d =
     do {
       (d1, _) \<leftarrow> timeout_session (tv_sec p) d;
       let (a, d2) = fetch_session p d1;
       let data_len = remain p;
       let flags = tcp_flags p;
       let seq = tcp_seq p;
       let ack = tcp_ack p;
       case objs d2 a of
         None \<Rightarrow> None
       | Some ssn0 \<Rightarrow>
           do {
             (rc, ssn) \<leftarrow> update flags seq ack data_len (pdir p) ssn0;
             let p1 =
               (if rc then
                  (let to_srv = to_server ssn (pdir p);
                       p' = copy (P_TO_SERVER d) (BoolVar to_srv) p
                   in if is_data_available ssn (pdir p) then
                        (if 0 < data_len
                         then push_event (EV_DATA d) (set_var (P_SEG d) data_len p')
                         else p')
                      else p')
                else p);
             let p2 = copy (P_SERVER_STAT d) (StatVar (server_stat ssn)) p1;
             let p3 = copy (P_CLIENT_STAT d) (StatVar (client_stat ssn)) p2;
             Some (True, p3, d2\<lparr> objs := (objs d2)(a \<mapsto> ssn) \<rparr>)
           }
     }"

text \<open>The decoder run over the packets of a capture, each packet's Property beside the
  decoder it leaves.\<close>

fun decodes :: "Property list \<Rightarrow> TcpSsnDecoder \<Rightarrow> (Property list \<times> TcpSsnDecoder) option" where
  "decodes [] d = Some ([], d)"
| "decodes (p # ps) d =
     (case decode p d of
        None \<Rightarrow> None
      | Some (_, p', d') \<Rightarrow>
          (case decodes ps d' of
             None \<Rightarrow> None
           | Some (ps', d'') \<Rightarrow> Some (p' # ps', d'')))"

section \<open>Runs of one endpoint\<close>

text \<open>A sequence of \<^verbatim>\<open>send\<close> and \<^verbatim>\<open>recv\<close> calls on one endpoint, and the payload
  bytes its \<^verbatim>\<open>send\<close> calls carry.\<close>

datatype node_call =
    Send "8 word" "32 word" "32 word" "64 word"
  | Recv "8 word" "32 word" "32 word" "64 word"

fun apply_call :: "node_call \<Rightarrow> Node \<Rightarrow> (bool \<times> Node) option" where
  "apply_call (Send f s a l) n = send f s a l n"
| "apply_call (Recv f s a l) n = recv f s a l n"

fun apply_calls :: "node_call list \<Rightarrow> Node \<Rightarrow> Node option" where
  "apply_calls [] n = Some n"
| "apply_calls (c # cs) n =
     (case apply_call c n of None \<Rightarrow> None | Some (_, n') \<Rightarrow> apply_calls cs n')"

fun sent_bytes :: "node_call list \<Rightarrow> nat" where
  "sent_bytes [] = 0"
| "sent_bytes (Send f s a l # cs) = unat l + sent_bytes cs"
| "sent_bytes (Recv f s a l # cs) = sent_bytes cs"

section \<open>The scenarios of the spec\<close>

text \<open>The packets of the spec's scenarios, and the session the three-way handshake and
  a first data segment of 100 bytes lead to.\<close>

definition seg :: "FlowDir \<Rightarrow> 8 word \<Rightarrow> 32 word \<Rightarrow> 32 word \<Rightarrow> 64 word \<Rightarrow> Segment" where
  "seg d f s a l = \<lparr> seg_flags = f, seg_seq = s, seg_ack = a, seg_len = l, seg_dir = d \<rparr>"

definition handshake :: "Segment list" where
  "handshake =
     [seg DIR_L2R SYN 1000 0 0,
      seg DIR_R2L (SYN OR ACK) 5000 1001 0,
      seg DIR_L2R ACK 1001 5001 0]"

definition established_ssn :: TcpSession where
  "established_ssn =
     \<lparr> key = [], hash = 0, ts = 0,
       server = \<lparr> base_seq = 5000, sent_len = 0, next_ack = 1101,
                  avail_seq = True, avail_ack = True, stat = SYN_RCVD,
                  recv_fin = False, recv_finack = False, sent_finack = False,
                  updated = False \<rparr>,
       client = \<lparr> base_seq = 1000, sent_len = 100, next_ack = 5001,
                  avail_seq = True, avail_ack = True, stat = ESTABLISHED,
                  recv_fin = False, recv_finack = False, sent_finack = False,
                  updated = False \<rparr>,
       dir = DIR_L2R \<rparr>"

text \<open>Packets as the decoder receives them, an empty registry, and a decoder that holds
  two flows: one last seen at 1000, one created at 1000 and seen again at 1200.\<close>

definition packet ::
  "time_t \<Rightarrow> 8 word list \<Rightarrow> 64 word \<Rightarrow> FlowDir \<Rightarrow> 8 word \<Rightarrow> 32 word \<Rightarrow> 32 word \<Rightarrow> 64 word \<Rightarrow> Property"
where
  "packet t k h d f s a l =
     \<lparr> tv_sec = t, pdir = d, remain = l, ssn_label = k, hash_value = h,
       tcp_flags = f, tcp_seq = s, tcp_ack = a, vars = [], events = [] \<rparr>"

definition no_registry :: NetDec where
  "no_registry = \<lparr> event_names = [], value_names = [] \<rparr>"

definition flow_a :: "8 word list" where "flow_a = [10, 0, 0, 1, 10, 0, 0, 2, 4, 210, 0, 80]"
definition flow_b :: "8 word list" where "flow_b = [10, 0, 0, 1, 10, 0, 0, 3, 4, 211, 0, 80]"

definition two_flows_dec :: TcpSsnDecoder where
  "two_flows_dec =
     \<lparr> EV_EST = 0, EV_DATA = 1, P_SEG = 0, P_TO_SERVER = 1, P_SERVER_STAT = 2,
       P_CLIENT_STAT = 3,
       ssn_table = \<lparr> max_ttl = 3600, capacity = 0xffff, clock = 200,
                     live = [(300, 0), (300, 1)], expired = [] \<rparr>,
       last_ts = 1200,
       objs = [0 \<mapsto> (TcpSession_new flow_a 1)\<lparr> ts := 1000 \<rparr>,
               1 \<mapsto> (TcpSession_new flow_b 2)\<lparr> ts := 1200 \<rparr>],
       next_obj = 2 \<rparr>"

text \<open>The packets of the handshake scenario on one flow, the data segment of 100 bytes
  that follows it, a packet that comes before any SYN, and the decoder after the
  handshake and after the data segment.\<close>

definition handshake_pkts :: "Property list" where
  "handshake_pkts =
     [packet 1000 flow_a 1 DIR_L2R SYN 1000 0 0,
      packet 1000 flow_a 1 DIR_R2L (SYN OR ACK) 5000 1001 0,
      packet 1000 flow_a 1 DIR_L2R ACK 1001 5001 0]"

definition data_pkt :: Property where
  "data_pkt = packet 1000 flow_a 1 DIR_L2R ACK 1001 5001 100"

definition pre_syn_pkt :: Property where
  "pre_syn_pkt = packet 1000 flow_a 1 DIR_L2R ACK 1001 5001 50"

definition handshake_dec :: TcpSsnDecoder where
  "handshake_dec =
     \<lparr> EV_EST = 0, EV_DATA = 1, P_SEG = 0, P_TO_SERVER = 1, P_SERVER_STAT = 2,
       P_CLIENT_STAT = 3,
       ssn_table = \<lparr> max_ttl = 3600, capacity = 0xffff, clock = 0,
                     live = [(300, 0)], expired = [] \<rparr>,
       last_ts = 1000,
       objs = [0 \<mapsto>
         \<lparr> key = flow_a, hash = 1, ts = 1000,
           server = \<lparr> base_seq = 5000, sent_len = 0, next_ack = 1001,
                      avail_seq = True, avail_ack = True, stat = SYN_RCVD,
                      recv_fin = False, recv_finack = False, sent_finack = False,
                      updated = False \<rparr>,
           client = \<lparr> base_seq = 1000, sent_len = 0, next_ack = 5001,
                      avail_seq = True, avail_ack = True, stat = ESTABLISHED,
                      recv_fin = False, recv_finack = False, sent_finack = False,
                      updated = True \<rparr>,
           dir = DIR_L2R \<rparr>],
       next_obj = 1 \<rparr>"

definition data_ssn :: TcpSession where
  "data_ssn = established_ssn\<lparr> key := flow_a, hash := 1, ts := 1000 \<rparr>"

definition data_dec :: TcpSsnDecoder where
  "data_dec = handshake_dec\<lparr> objs := [0 \<mapsto> data_ssn] \<rparr>"

definition data_out :: Property where
  "data_out =
     data_pkt\<lparr> vars := [(1, BoolVar True), (0, Slice 100), (2, StatVar SYN_RCVD),
                         (3, StatVar ESTABLISHED)],
               events := [1] \<rparr>"


section \<open>What \<^verbatim>\<open>decode\<close> writes\<close>

text \<open>The attributes and the events that \<^verbatim>\<open>decode\<close> adds to the Property, given what
  \<^verbatim>\<open>update\<close> returned and the session it left; \<open>known_flow\<close> says that the table
  holds a session for the packet's flow.\<close>

definition written :: "TcpSsnDecoder \<Rightarrow> Property \<Rightarrow> bool \<Rightarrow> TcpSession \<Rightarrow> (val_id \<times> Var) list" where
  "written d p rc s =
     (if rc then
        (P_TO_SERVER d, BoolVar (to_server s (pdir p))) #
        (if is_data_available s (pdir p) \<and> 0 < remain p
         then [(P_SEG d, Slice (remain p))] else [])
      else []) @
     [(P_SERVER_STAT d, StatVar (server_stat s)), (P_CLIENT_STAT d, StatVar (client_stat s))]"

definition pushed :: "TcpSsnDecoder \<Rightarrow> Property \<Rightarrow> bool \<Rightarrow> TcpSession \<Rightarrow> ev_id list" where
  "pushed d p rc s =
     (if rc \<and> is_data_available s (pdir p) \<and> 0 < remain p then [EV_DATA d] else [])"

definition known_flow :: "Property \<Rightarrow> TcpSsnDecoder \<Rightarrow> bool" where
  "known_flow p d \<longleftrightarrow>
     LRU_get (objs d) (hash_value p) (ssn_label p) (ssn_table d) \<noteq> None"

section \<open>The table during the timeout pass\<close>

text \<open>
  What the statements about the loop of \<^verbatim>\<open>timeout_session\<close> speak of. \<open>held\<close> is the
  set of the addresses a table holds, live or expired; \<open>outdated\<close> is the test the loop
  applies to a popped session, in the arithmetic of \<^verbatim>\<open>time_t\<close>.
\<close>

definition held :: "LRUHash \<Rightarrow> addr set" where
  "held t = snd ` set (live t) \<union> set (expired t)"

abbreviation outdated :: "time_t \<Rightarrow> TcpSession \<Rightarrow> bool" where
  "outdated tv s \<equiv> sint (ts s + TIMEOUT) < sint tv"

text \<open>What a run of the loop that returns leaves as it was: every field of the decoder
  but the table and the objects, the clock and the capacity of the table; it adds no
  address to the table, never calls \<^verbatim>\<open>prog\<close>, and puts with \<^verbatim>\<open>TIMEOUT\<close> only.\<close>

definition loop_frame :: "time_t \<Rightarrow> TcpSsnDecoder \<Rightarrow> TcpSsnDecoder \<times> table_call list \<Rightarrow> bool" where
  "loop_frame tv d r \<longleftrightarrow>
     fst r = d\<lparr> ssn_table := ssn_table (fst r), objs := objs (fst r) \<rparr> \<and>
     clock (ssn_table (fst r)) = clock (ssn_table d) \<and>
     capacity (ssn_table (fst r)) = capacity (ssn_table d) \<and>
     held (ssn_table (fst r)) \<subseteq> held (ssn_table d) \<and>
     (\<forall>n. Prog n \<notin> set (snd r)) \<and>
     (\<forall>ttl a. Put ttl a \<in> set (snd r) \<longrightarrow> ttl = unat TIMEOUT)"

text \<open>What the calls of a run that returns say of the sessions: a deleted session was
  popped, was outdated and is gone; a session put back was popped, was not outdated and
  is in the table; a popped address was in the table, and a popped session is deleted or
  put back; an object changes only by being deleted; and a session that is not outdated
  and was in the table with the deadline of a new put, or expired, still is.\<close>

definition loop_ok :: "time_t \<Rightarrow> TcpSsnDecoder \<Rightarrow> TcpSsnDecoder \<times> table_call list \<Rightarrow> bool" where
  "loop_ok tv d r \<longleftrightarrow>
     (\<forall>a. Delete a \<in> set (snd r) \<longrightarrow>
        Pop a \<in> set (snd r) \<and> (\<exists>s. objs d a = Some s \<and> outdated tv s) \<and>
        objs (fst r) a = None) \<and>
     (\<forall>ttl a. Put ttl a \<in> set (snd r) \<longrightarrow>
        Pop a \<in> set (snd r) \<and> (\<exists>s. objs d a = Some s \<and> \<not> outdated tv s) \<and>
        ((clock (ssn_table d) + unat TIMEOUT, a) \<in> set (live (ssn_table (fst r))) \<or>
         a \<in> set (expired (ssn_table (fst r))))) \<and>
     (\<forall>a. Pop a \<in> set (snd r) \<longrightarrow> a \<in> held (ssn_table d)) \<and>
     (\<forall>a. Pop a \<in> set (snd r) \<longrightarrow> objs d a \<noteq> None \<longrightarrow>
        Delete a \<in> set (snd r) \<or> Put (unat TIMEOUT) a \<in> set (snd r)) \<and>
     (\<forall>a. objs (fst r) a = objs d a \<or> (Delete a \<in> set (snd r) \<and> objs (fst r) a = None)) \<and>
     (\<forall>a s. objs d a = Some s \<and> \<not> outdated tv s \<and>
        ((clock (ssn_table d) + unat TIMEOUT, a) \<in> set (live (ssn_table d)) \<or>
         a \<in> set (expired (ssn_table d))) \<longrightarrow>
        (clock (ssn_table d) + unat TIMEOUT, a) \<in> set (live (ssn_table (fst r))) \<or>
        a \<in> set (expired (ssn_table (fst r))))"



section \<open>A burst of new flows\<close>








section \<open>Properties of the state machine\<close>

lemmas flag_defs = FIN_def SYN_def RST_def PUSH_def ACK_def URG_def ECE_def CWR_def

lemma ucast_down_add: "(ucast ((a::64 word) + b) :: 32 word) = ucast a + ucast b"
proof -
  have l: "uint (ucast (a + b) :: 32 word) = (uint a + uint b) mod 2 ^ 32"
    by (simp add: unsigned_ucast_eq uint_word_ariths take_bit_eq_mod mod_mod_cancel)
  have r: "uint ((ucast a :: 32 word) + ucast b) = (uint a + uint b) mod 2 ^ 32"
    by (simp add: uint_word_ariths unsigned_ucast_eq take_bit_eq_mod mod_simps)
  show ?thesis
    using l r by (simp only: word_uint_eq_iff)
qed

lemma ucast_up_down: "(ucast (ucast (x :: 32 word) :: 64 word) :: 32 word) = x"
  by (rule bit_word_eqI) (auto simp: bit_simps)

lemma add_len_eq: "add_len x n = x + ucast n"
  unfolding add_len_def ucast_down_add by (simp add: ucast_up_down)

lemma flags_masked_masked: "flags_masked (masked flags)"
  unfolding flags_masked_def masked_def flag_defs
  by (rule bit_word_eqI) (auto simp: bit_simps)

lemma send_Some: "flags_masked flags \<Longrightarrow> \<exists>n'. send flags seq ack len n = Some (True, n')"
  by (simp add: send_def Let_def)

lemma recv_Some: "flags_masked flags \<Longrightarrow> \<exists>n'. recv flags seq ack len n = Some (True, n')"
  by (simp add: recv_def Let_def)

lemma update_rc:
  "\<exists>s'. update flags seq ack len d s =
     Some (if dir s = DIR_NIL then masked flags = SYN
           else check_seq (if to_server s d then client s else server s) seq ack, s')"
proof -
  let ?f = "flags AND (FIN OR SYN OR RST OR ACK)"
  have m: "flags_masked ?f" using flags_masked_masked [of flags] by (simp add: masked_def)
  obtain c v c' v' where
    "send ?f seq ack len (client s) = Some (True, c)"
    "recv ?f seq ack len (server s) = Some (True, v)"
    "send ?f seq ack len (server s) = Some (True, v')"
    "recv ?f seq ack len (client s) = Some (True, c')"
    using send_Some [OF m] recv_Some [OF m] by metis
  then show ?thesis
    by (auto simp: update_def Let_def masked_def to_server_def to_client_def)
qed

lemma update_rejects:
  "dir s \<noteq> DIR_NIL \<Longrightarrow> \<not> check_seq (if to_server s d then client s else server s) seq ack
   \<Longrightarrow> update flags seq ack len d s = Some (False, s)"
  by (auto simp: update_def Let_def to_server_def to_client_def)

lemma update_dir:
  assumes "update flags seq ack len d s = Some (rc, s')"
  shows "dir s' = (if dir s = DIR_NIL \<and> masked flags = SYN then d else dir s)"
  using assms
  by (auto simp: update_def masked_def Let_def split: if_splits bind_splits prod.splits)

lemmas eval_defs = seg_def handshake_def established_ssn_def update_seg_def update_def
  send_def recv_def check_seq_def to_server_def to_client_def flags_masked_def flag_defs
  update_stat_def add_len_def TcpSession_new_def Node_new_def masked_def Let_def

subsection \<open>The acknowledgement number\<close>

text \<open>
  Claim C9. The \<^verbatim>\<open>ack\<close> argument does not influence the state machine: two calls of
  \<^verbatim>\<open>update\<close> that differ only in \<^verbatim>\<open>ack\<close> return the same boolean and leave the
  same session (both endpoints and the direction).
\<close>

theorem update_ignores_ack: "update flags seq ack1 data_len d s = update flags seq ack2 data_len d s"
proof -
  have s: "send f seq ack1 data_len n = send f seq ack2 data_len n" for f n
    by (simp add: send_def)
  have r: "recv f seq ack1 data_len n = recv f seq ack2 data_len n" for f n
    by (simp add: recv_def)
  have c: "check_seq n seq ack1 = check_seq n seq ack2" for n
    by (simp add: check_seq_def)
  show ?thesis
    unfolding update_def s r c ..
qed

theorem update_ignores_ack_witness:
  "update ACK 1101 5001 10 DIR_L2R established_ssn
     = update ACK 1101 77 10 DIR_L2R established_ssn \<and>
   map_option fst (update ACK 1101 77 10 DIR_L2R established_ssn) = Some True"
  using update_ignores_ack [of ACK 1101 5001 10 DIR_L2R established_ssn 77]
  by (simp add: eval_defs)

subsection \<open>What \<^verbatim>\<open>send\<close> and \<^verbatim>\<open>recv\<close> return\<close>

text \<open>
  Claim C10. On flags that satisfy the assertion, \<^verbatim>\<open>send\<close> and \<^verbatim>\<open>recv\<close> return
  true, whatever the sequence number, the acknowledgement number and the length; and
  \<^verbatim>\<open>update\<close> always returns, its boolean being decided by the test on a direction
  still NIL (the masked flags are exactly SYN) and otherwise by \<^verbatim>\<open>check_seq\<close> on the
  sender alone.
\<close>

theorem send_recv_return_true:
  "(flags_masked flags \<longrightarrow>
      map_option fst (send flags seq ack data_len n) = Some True \<and>
      map_option fst (recv flags seq ack data_len n) = Some True) \<and>
   map_option fst (update flags seq ack data_len d s) =
     Some (if dir s = DIR_NIL then masked flags = SYN
           else check_seq (if to_server s d then client s else server s) seq ack)"
proof -
  have "map_option fst (send flags seq ack data_len n) = Some True"
    and "map_option fst (recv flags seq ack data_len n) = Some True" if "flags_masked flags"
    using send_Some [OF that, of seq ack data_len n] recv_Some [OF that, of seq ack data_len n]
    by auto
  moreover have "map_option fst (update flags seq ack data_len d s) =
     Some (if dir s = DIR_NIL then masked flags = SYN
           else check_seq (if to_server s d then client s else server s) seq ack)"
    using update_rc [of flags seq ack data_len d s] by auto
  ultimately show ?thesis by blast
qed

theorem send_recv_return_true_witness:
  "flags_masked ACK \<and>
   map_option fst (send ACK 1101 5001 10 (client established_ssn)) = Some True \<and>
   map_option fst (recv ACK 1101 5001 10 (server established_ssn)) = Some True \<and>
   map_option fst (update ACK 1101 5001 10 DIR_L2R established_ssn) = Some True"
proof -
  have h: "flags_masked ACK"
    by (simp add: flags_masked_def flag_defs)
  have c: "check_seq (client established_ssn) 1101 5001"
    by (simp add: check_seq_def established_ssn_def)
  show ?thesis
    using h c send_recv_return_true [of ACK 1101 5001 10 "client established_ssn" DIR_L2R established_ssn]
      send_recv_return_true [of ACK 1101 5001 10 "server established_ssn" DIR_L2R established_ssn]
    by (simp add: to_server_def established_ssn_def)
qed

subsection \<open>The sequence check\<close>

text \<open>
  Claim C1 as stated fails. After the handshake and 100 bytes of data the client has
  \<^verbatim>\<open>base_seq\<close> 1000 and \<^verbatim>\<open>sent_len\<close> 100 and is ESTABLISHED; the segment
  (L2R, ACK, seq 99999, 10 bytes) passes \<^verbatim>\<open>check_seq\<close> and \<^verbatim>\<open>update\<close> accepts it,
  although 1000 + 100 + 1 is not at least 99999.
\<close>

theorem check_seq_jump_counterexample:
  "updates (handshake @ [seg DIR_L2R ACK 1001 5001 100]) (TcpSession_new [] 0)
     = Some established_ssn \<and>
   stat (client established_ssn) = ESTABLISHED \<and>
   base_seq (client established_ssn) = 1000 \<and>
   sent_len (client established_ssn) = 100 \<and>
   check_seq (client established_ssn) 99999 5001 \<and>
   \<not> (\<not> avail_seq (client established_ssn) \<or>
       99999 \<le> base_seq (client established_ssn) + sent_len (client established_ssn) + 1) \<and>
   map_option fst (update ACK 99999 5001 10 DIR_L2R established_ssn) = Some True"
  by (simp add: eval_defs)

text \<open>
  An endpoint that has an acknowledgement number equal to 0 is refused every segment,
  whatever its sequence number: \<^verbatim>\<open>check_seq\<close> tests \<^verbatim>\<open>next_ack_\<close> as a truth value.
  After a SYN with the sequence number \<open>2\<^sup>3\<^sup>2 - 1\<close> the server is in that state, and its
  SYN+ACK is rejected with the session as it was.
\<close>

lemma check_seq_zero_ack:
  "map_option
     (\<lambda>s. (avail_ack (server s), next_ack (server s), avail_seq (server s),
           check_seq (server s) 5000 0,
           update (SYN OR ACK) 5000 0 0 DIR_R2L s = Some (False, s)))
     (updates [seg DIR_L2R SYN 0xFFFFFFFF 0 0] (TcpSession_new [] 0))
   = Some (True, 0, False, False, True)"
  by (simp add: eval_defs)

text \<open>
  Claim C1, amended. \<^verbatim>\<open>check_seq\<close> accepts only if the sender has no base sequence
  number yet or \<^verbatim>\<open>base_seq + sent_len + 1\<close>, summed in 32 bits, is at most \<^verbatim>\<open>seq\<close>: it
  refuses the segments that lie before what was already seen, and accepts a jump ahead.
  For an endpoint that has no acknowledgement number yet or a non-zero one, it accepts
  exactly then; of an endpoint whose acknowledgement number is 0 nothing more is said.
  Whenever the check fails on the sender of a session with a direction, \<^verbatim>\<open>update\<close>
  returns false and leaves the session as it was. An endpoint with \<^verbatim>\<open>base_seq\<close> 1000
  and \<^verbatim>\<open>sent_len\<close> 100, and no acknowledgement number or a non-zero one, accepts the
  sequence number 99999.
\<close>

theorem check_seq_accepts_iff:
  "(check_seq n seq ack \<longrightarrow> \<not> avail_seq n \<or> base_seq n + sent_len n + 1 \<le> seq) \<and>
   (\<not> avail_ack n \<or> next_ack n \<noteq> 0 \<longrightarrow>
      (check_seq n seq ack \<longleftrightarrow> \<not> avail_seq n \<or> base_seq n + sent_len n + 1 \<le> seq)) \<and>
   (dir s \<noteq> DIR_NIL \<and> \<not> check_seq (if to_server s d then client s else server s) seq ack
      \<longrightarrow> update flags seq ack data_len d s = Some (False, s)) \<and>
   (base_seq n = 1000 \<and> sent_len n = 100 \<and> (\<not> avail_ack n \<or> next_ack n \<noteq> 0)
      \<longrightarrow> check_seq n 99999 ack)"
  using update_rejects [of s d seq ack flags data_len]
  by (simp add: check_seq_def)

theorem check_seq_accepts_iff_witness:
  "dir established_ssn \<noteq> DIR_NIL \<and>
   to_server established_ssn DIR_L2R \<and>
   avail_seq (client established_ssn) \<and>
   avail_ack (client established_ssn) \<and> next_ack (client established_ssn) \<noteq> 0 \<and>
   base_seq (client established_ssn) = 1000 \<and> sent_len (client established_ssn) = 100 \<and>
   \<not> base_seq (client established_ssn) + sent_len (client established_ssn) + 1 \<le> 1100 \<and>
   \<not> check_seq (client established_ssn) 1100 5001 \<and>
   update ACK 1100 5001 10 DIR_L2R established_ssn = Some (False, established_ssn) \<and>
   base_seq (client established_ssn) + sent_len (client established_ssn) + 1 \<le> 1101 \<and>
   check_seq (client established_ssn) 1101 5001 \<and>
   check_seq (client established_ssn) 99999 5001"
proof -
  have h1: "dir established_ssn \<noteq> DIR_NIL \<and> to_server established_ssn DIR_L2R"
    by (simp add: established_ssn_def to_server_def)
  have h2: "avail_seq (client established_ssn) \<and>
      avail_ack (client established_ssn) \<and> next_ack (client established_ssn) \<noteq> 0 \<and>
      base_seq (client established_ssn) = 1000 \<and> sent_len (client established_ssn) = 100"
    by (simp add: established_ssn_def)
  have h3: "\<not> base_seq (client established_ssn) + sent_len (client established_ssn) + 1 \<le> 1100 \<and>
      base_seq (client established_ssn) + sent_len (client established_ssn) + 1 \<le> 1101"
    by (simp add: established_ssn_def)
  show ?thesis
    using h1 h2 h3
      check_seq_accepts_iff [of "client established_ssn" 1100 5001 established_ssn DIR_L2R ACK 10]
      check_seq_accepts_iff [of "client established_ssn" 1101 5001 established_ssn DIR_L2R ACK 10]
      check_seq_accepts_iff [of "client established_ssn" 99999 5001 established_ssn DIR_L2R ACK 10]
    by simp
qed


subsection \<open>The payload counter\<close>

lemma send_sent_len:
  assumes "send f s a l n = Some (b, n')"
  shows "sent_len n' = (if stat n' = ESTABLISHED then sent_len n + ucast l else sent_len n)"
proof -
  have m: "flags_masked f"
    using assms by (simp add: send_def split: if_splits)
  show ?thesis
    using assms m
    by (cases "stat n")
       (auto simp: send_def Let_def update_stat_def add_len_eq split: if_splits)
qed

lemma recv_sent_len:
  assumes "recv f s a l n = Some (b, n')"
  shows "sent_len n' = sent_len n"
proof -
  have m: "flags_masked f"
    using assms by (simp add: recv_def split: if_splits)
  show ?thesis
    using assms m
    by (cases "stat n")
       (auto simp: recv_def Let_def update_stat_def split: if_splits)
qed

lemma add_ucast_no_wrap:
  fixes x :: "32 word" and l :: "64 word"
  assumes "unat x + unat l < 2 ^ 32"
  shows "unat (x + ucast l) = unat x + unat l"
proof -
  have l: "unat l < 2 ^ 32" using assms by simp
  have "unat (ucast l :: 32 word) = unat l"
    using l by (simp add: unsigned_ucast_eq take_bit_nat_eq_self)
  then show ?thesis
    using assms unat_add_lem [of x "ucast l :: 32 word"] by simp
qed

lemma apply_call_sent_len:
  assumes "apply_call c n = Some (b, n')" and "unat (sent_len n) + sent_bytes [c] < 2 ^ 32"
  shows "unat (sent_len n) \<le> unat (sent_len n')"
    and "unat (sent_len n') \<le> unat (sent_len n) + sent_bytes [c]"
proof -
  show "unat (sent_len n) \<le> unat (sent_len n')"
  proof (cases c)
    case (Send f s a l)
    then show ?thesis
      using assms send_sent_len [of f s a l n b n'] add_ucast_no_wrap [of "sent_len n" l]
      by (simp split: if_splits)
  next
    case (Recv f s a l)
    then show ?thesis using assms recv_sent_len [of f s a l n b n'] by simp
  qed
  show "unat (sent_len n') \<le> unat (sent_len n) + sent_bytes [c]"
  proof (cases c)
    case (Send f s a l)
    then show ?thesis
      using assms send_sent_len [of f s a l n b n'] add_ucast_no_wrap [of "sent_len n" l]
      by (simp split: if_splits)
  next
    case (Recv f s a l)
    then show ?thesis using assms recv_sent_len [of f s a l n b n'] by simp
  qed
qed

lemma sent_bytes_Cons: "sent_bytes (c # cs) = sent_bytes [c] + sent_bytes cs"
  by (cases c) simp_all

lemma apply_calls_sent_len:
  "apply_calls cs n = Some n' \<Longrightarrow> unat (sent_len n) + sent_bytes cs < 2 ^ 32 \<Longrightarrow>
   unat (sent_len n) \<le> unat (sent_len n') \<and>
   unat (sent_len n') \<le> unat (sent_len n) + sent_bytes cs"
proof (induction cs arbitrary: n)
  case Nil
  then show ?case by simp
next
  case (Cons c cs)
  from Cons.prems(1) obtain b m where
    step: "apply_call c n = Some (b, m)" and rest: "apply_calls cs m = Some n'"
    by (auto split: option.splits)
  have bound: "unat (sent_len n) + sent_bytes [c] + sent_bytes cs < 2 ^ 32"
    using Cons.prems(2) sent_bytes_Cons [of c cs] by simp
  then have b1: "unat (sent_len n) + sent_bytes [c] < 2 ^ 32" by simp
  have m1: "unat (sent_len n) \<le> unat (sent_len m)"
    and m2: "unat (sent_len m) \<le> unat (sent_len n) + sent_bytes [c]"
    using apply_call_sent_len [OF step b1] by simp_all
  have "unat (sent_len m) + sent_bytes cs < 2 ^ 32"
    using m2 bound by simp
  from Cons.IH [OF rest this] m1 m2 show ?case
    using sent_bytes_Cons [of c cs] by simp
qed

text \<open>
  Claim C6, amended. \<^verbatim>\<open>sent_len\<close> is a 32-bit counter. \<^verbatim>\<open>send\<close> adds
  \<^verbatim>\<open>data_len\<close> to it modulo \<open>2 ^ 32\<close> when the endpoint is ESTABLISHED after the
  transition and leaves it alone otherwise, \<^verbatim>\<open>recv\<close> never changes it, and nothing
  resets it. Across a sequence of \<^verbatim>\<open>send\<close> and \<^verbatim>\<open>recv\<close> calls it does not
  decrease as long as the counter plus the payload of the \<^verbatim>\<open>send\<close> calls stays below
  \<open>2 ^ 32\<close>.
\<close>

theorem sent_len_monotone:
  "(apply_calls cs n = Some n' \<and> unat (sent_len n) + sent_bytes cs < 2 ^ 32
      \<longrightarrow> sent_len n \<le> sent_len n') \<and>
   (send f s a l n = Some (b, n')
      \<longrightarrow> sent_len n' = (if stat n' = ESTABLISHED then sent_len n + ucast l else sent_len n)) \<and>
   (recv f s a l n = Some (b, n') \<longrightarrow> sent_len n' = sent_len n)"
  using apply_calls_sent_len [of cs n n'] send_sent_len [of f s a l n b n']
    recv_sent_len [of f s a l n b n']
  by (simp add: word_le_nat_alt)

lemma apply_calls_append:
  "apply_calls (cs @ ds) n = (case apply_calls cs n of None \<Rightarrow> None | Some m \<Rightarrow> apply_calls ds m)"
  by (induction cs arbitrary: n) (auto split: option.splits)

lemma data_segments:
  "stat n = ESTABLISHED \<Longrightarrow>
   \<exists>n'. apply_calls (replicate k (Send ACK s a l)) n = Some n' \<and> stat n' = ESTABLISHED \<and>
        sent_len n' = sent_len n + of_nat k * ucast l"
proof (induction k arbitrary: n)
  case 0
  then show ?case by simp
next
  case (Suc k)
  obtain m where m: "send ACK s a l n = Some (True, m)" "stat m = ESTABLISHED"
      "sent_len m = sent_len n + ucast l"
    using Suc.prems
    by (simp add: send_def Let_def flags_masked_def flag_defs add_len_eq)
  from Suc.IH [OF m(2)] obtain n' where
    "apply_calls (replicate k (Send ACK s a l)) m = Some n'" "stat n' = ESTABLISHED"
    "sent_len n' = sent_len m + of_nat k * ucast l" by blast
  then show ?case using m by (simp add: algebra_simps)
qed

text \<open>
  Claim C6 as stated fails: the counter wraps. From the ESTABLISHED client of the
  handshake scenario (\<^verbatim>\<open>sent_len\<close> 100), 2941758 segments of 1460 bytes bring
  \<^verbatim>\<open>sent_len\<close> to 4294966780, and the next segment of 1460 bytes brings it down to 944.
\<close>

theorem sent_len_wraps_counterexample:
  "map_option sent_len
     (apply_calls (replicate 2941758 (Send ACK 1101 5001 1460)) (client established_ssn))
     = Some 4294966780 \<and>
   map_option sent_len
     (apply_calls (replicate 2941758 (Send ACK 1101 5001 1460) @ [Send ACK 1101 5001 1460])
        (client established_ssn))
     = Some 944"
proof -
  have e: "stat (client established_ssn) = ESTABLISHED"
    by (simp add: established_ssn_def)
  obtain n' where n': "apply_calls (replicate 2941758 (Send ACK 1101 5001 1460))
      (client established_ssn) = Some n'" "stat n' = ESTABLISHED"
    "sent_len n' = sent_len (client established_ssn) + of_nat 2941758 * ucast (1460 :: 64 word)"
    using data_segments [OF e, of 2941758 1101 5001 1460] by blast
  have v: "sent_len n' = 4294966780"
    using n'(3) by (simp add: established_ssn_def)
  obtain m where m: "send ACK 1101 5001 1460 n' = Some (True, m)"
      "sent_len m = sent_len n' + ucast (1460 :: 64 word)"
    using n'(2)
    by (simp add: send_def Let_def flags_masked_def flag_defs add_len_eq)
  show ?thesis
    using n'(1) v m by (simp add: apply_calls_append)
qed

theorem sent_len_monotone_witness:
  "apply_calls [Send SYN 1000 0 0, Recv (SYN OR ACK) 5000 1001 0, Send ACK 1001 5001 0,
               Send ACK 1001 5001 100] Node_new
     = Some (client established_ssn) \<and>
   unat (sent_len Node_new) +
     sent_bytes [Send SYN 1000 0 0, Recv (SYN OR ACK) 5000 1001 0, Send ACK 1001 5001 0,
                 Send ACK 1001 5001 100] < 2 ^ 32 \<and>
   sent_len Node_new \<le> sent_len (client established_ssn) \<and>
   send ACK 1001 5001 100 (client established_ssn)
     = Some (True, (client established_ssn)\<lparr> sent_len := 200 \<rparr>) \<and>
   recv ACK 5001 1101 7 (client established_ssn)
     = Some (True, (client established_ssn)\<lparr> next_ack := 5008 \<rparr>)"
proof -
  let ?cs = "[Send SYN 1000 0 0, Recv (SYN OR ACK) 5000 1001 0, Send ACK 1001 5001 0,
              Send ACK 1001 5001 100]"
  have h1: "apply_calls ?cs Node_new = Some (client established_ssn)"
    by (simp add: eval_defs)
  have h2: "unat (sent_len Node_new) + sent_bytes ?cs < 2 ^ 32"
    by (simp add: Node_new_def)
  have h3: "send ACK 1001 5001 100 (client established_ssn)
     = Some (True, (client established_ssn)\<lparr> sent_len := 200 \<rparr>)"
    by (simp add: eval_defs)
  have h4: "recv ACK 5001 1101 7 (client established_ssn)
     = Some (True, (client established_ssn)\<lparr> next_ack := 5008 \<rparr>)"
    by (simp add: eval_defs)
  show ?thesis
    using h1 h2 h3 h4
      sent_len_monotone [of ?cs Node_new "client established_ssn" ACK 1001 5001 100 True]
    by simp
qed


subsection \<open>The direction of a session\<close>

lemma update_Some: "\<exists>rc s'. update flags seq ack len d s = Some (rc, s')"
  using update_rc [of flags seq ack len d s] by blast

lemma updates_dir_any:
  "\<exists>s'. updates ps s = Some s' \<and>
        (dir s' = DIR_NIL \<longleftrightarrow>
           dir s = DIR_NIL \<and> (\<forall>p \<in> set ps. masked (seg_flags p) = SYN \<longrightarrow> seg_dir p = DIR_NIL))"
proof (induction ps arbitrary: s)
  case Nil
  then show ?case by simp
next
  case (Cons p ps)
  obtain rc m where m: "update_seg p s = Some (rc, m)"
    using update_Some [of "seg_flags p" "seg_seq p" "seg_ack p" "seg_len p" "seg_dir p" s]
    by (auto simp: update_seg_def)
  have dm: "dir m = (if dir s = DIR_NIL \<and> masked (seg_flags p) = SYN then seg_dir p else dir s)"
    using m update_dir [of "seg_flags p" "seg_seq p" "seg_ack p" "seg_len p" "seg_dir p" s rc m]
    by (simp add: update_seg_def)
  from Cons.IH [of m] obtain s' where
    s': "updates ps m = Some s'"
        "dir s' = DIR_NIL \<longleftrightarrow>
           dir m = DIR_NIL \<and> (\<forall>q \<in> set ps. masked (seg_flags q) = SYN \<longrightarrow> seg_dir q = DIR_NIL)"
    by blast
  show ?case using m dm s' by auto
qed

lemma update_pre_syn:
  "dir s = DIR_NIL \<Longrightarrow> masked flags \<noteq> SYN \<Longrightarrow> update flags seq ack len d s = Some (False, s)"
  by (simp add: update_def masked_def Let_def)

text \<open>
  Claim C4, amended. For a session run from its constructor through any sequence of
  \<^verbatim>\<open>update\<close> calls, every call returns and the session's direction is NIL iff no
  packet of the sequence had masked flags exactly SYN together with a direction other
  than NIL: the direction is the one of the first such packet, and a SYN packet whose
  own direction is NIL leaves it NIL. While the direction is NIL, \<^verbatim>\<open>update\<close> rejects
  every packet whose masked flags are not exactly SYN and leaves the session as it was.
\<close>

theorem dir_nil_iff_no_directed_syn:
  "(\<exists>s'. updates ps (TcpSession_new k h) = Some s' \<and>
         (dir s' = DIR_NIL \<longleftrightarrow>
            (\<forall>p \<in> set ps. masked (seg_flags p) = SYN \<longrightarrow> seg_dir p = DIR_NIL))) \<and>
   (dir s = DIR_NIL \<and> masked flags \<noteq> SYN
      \<longrightarrow> update flags seq ack data_len d s = Some (False, s))"
proof -
  have "dir (TcpSession_new k h) = DIR_NIL"
    by (simp add: TcpSession_new_def)
  then show ?thesis
    using updates_dir_any [of ps "TcpSession_new k h"] update_pre_syn [of s flags seq ack data_len d]
    by auto
qed

text \<open>
  Claim C4 as stated fails: \<^verbatim>\<open>update\<close> stores the direction of the SYN packet as it
  comes, and a SYN packet whose own direction is NIL leaves the session's direction NIL.
\<close>

theorem dir_nil_after_syn_counterexample:
  "masked (seg_flags (seg DIR_NIL SYN 1000 0 0)) = SYN \<and>
   map_option dir (updates [seg DIR_NIL SYN 1000 0 0] (TcpSession_new [] 0)) = Some DIR_NIL"
  by (simp add: eval_defs)

theorem dir_nil_iff_no_directed_syn_witness:
  "map seg_dir [seg DIR_NIL ACK 7 7 0, seg DIR_L2R SYN 1000 0 0, seg DIR_NIL ACK 1001 7 0]
     = [DIR_NIL, DIR_L2R, DIR_NIL] \<and>
   map (masked \<circ> seg_flags)
       [seg DIR_NIL ACK 7 7 0, seg DIR_L2R SYN 1000 0 0, seg DIR_NIL ACK 1001 7 0]
     = [ACK, SYN, ACK] \<and>
   map_option dir
     (updates [seg DIR_NIL ACK 7 7 0, seg DIR_L2R SYN 1000 0 0, seg DIR_NIL ACK 1001 7 0]
        (TcpSession_new [] 0)) = Some DIR_L2R \<and>
   map_option dir (updates [seg DIR_NIL SYN 1000 0 0, seg DIR_NIL ACK 1001 7 0]
        (TcpSession_new [] 0)) = Some DIR_NIL \<and>
   dir (TcpSession_new [] 0) = DIR_NIL \<and> masked ACK \<noteq> SYN \<and>
   update ACK 1001 5001 50 DIR_L2R (TcpSession_new [] 0) = Some (False, TcpSession_new [] 0)"
proof -
  let ?ps = "[seg DIR_NIL ACK 7 7 0, seg DIR_L2R SYN 1000 0 0, seg DIR_NIL ACK 1001 7 0]"
  let ?qs = "[seg DIR_NIL SYN 1000 0 0, seg DIR_NIL ACK 1001 7 0]"
  have h2: "\<not> (\<forall>p \<in> set ?ps. masked (seg_flags p) = SYN \<longrightarrow> seg_dir p = DIR_NIL)"
    by (simp add: seg_def masked_def flag_defs)
  have h2': "\<forall>p \<in> set ?qs. masked (seg_flags p) = SYN \<longrightarrow> seg_dir p = DIR_NIL"
    by (simp add: seg_def masked_def flag_defs)
  have h3: "dir (TcpSession_new [] 0) = DIR_NIL \<and> masked ACK \<noteq> SYN"
    by (simp add: TcpSession_new_def masked_def flag_defs)
  have h4: "dir s' = DIR_L2R" if "updates ?ps (TcpSession_new [] 0) = Some s'" for s'
    using that by (simp add: eval_defs) auto
  have h5: "map seg_dir ?ps = [DIR_NIL, DIR_L2R, DIR_NIL] \<and>
      map (masked \<circ> seg_flags) ?ps = [ACK, SYN, ACK]"
    by (simp add: seg_def masked_def flag_defs)
  show ?thesis
    using h2 h2' h3 h4 h5
      dir_nil_iff_no_directed_syn [of ?ps "[]" 0 "TcpSession_new [] 0" ACK 1001 5001 50 DIR_L2R]
      dir_nil_iff_no_directed_syn [of ?qs "[]" 0 "TcpSession_new [] 0" ACK 1001 5001 50 DIR_L2R]
    by auto
qed


section \<open>Properties of the session table\<close>


lemma expire_oldest_fields:
  "clock (expire_oldest t) = clock t" "capacity (expire_oldest t) = capacity t"
  "max_ttl (expire_oldest t) = max_ttl t"
  by (simp_all add: expire_oldest_def Let_def split: list.splits)



lemma expire_oldest_held: "held (expire_oldest t) = held t"
  by (cases "live t") (auto simp: held_def expire_oldest_def Let_def)

lemma expire_oldest_live:
  "set (live (expire_oldest t)) \<subseteq> set (live t)"
  "e \<in> set (live t) \<Longrightarrow> e \<in> set (live (expire_oldest t)) \<or> snd e \<in> set (expired (expire_oldest t))"
  "set (expired t) \<subseteq> set (expired (expire_oldest t))"
  by (cases "live t"; auto simp: expire_oldest_def Let_def)+

lemma LRU_put_fields:
  "clock (LRU_put ttl a t) = clock t" "capacity (LRU_put ttl a t) = capacity t"
  by (simp_all add: LRU_put_def Let_def expire_oldest_fields)

lemma LRU_put_held: "held (LRU_put ttl a t) = insert a (held t)"
  using expire_oldest_held [of t]
  by (auto simp: LRU_put_def Let_def held_def)



lemma LRU_put_room:
  assumes "length (live t) < capacity t"
  shows "LRU_put ttl a t = t\<lparr> live := live t @ [(clock t + ttl, a)] \<rparr>"
  using assms by (simp add: LRU_put_def Let_def)

lemma LRU_put_live:
  "(clock t + ttl, a) \<in> set (live (LRU_put ttl a t))"
  "e \<in> set (live t) \<Longrightarrow> e \<in> set (live (LRU_put ttl a t)) \<or> snd e \<in> set (expired (LRU_put ttl a t))"
  "set (expired t) \<subseteq> set (expired (LRU_put ttl a t))"
  using expire_oldest_live [where t = t] expire_oldest_fields [of t]
  by (auto simp: LRU_put_def Let_def)

lemma LRU_pop_None: "LRU_pop t = (None, t') \<Longrightarrow> expired t = [] \<and> t' = t"
  by (auto simp: LRU_pop_def split: list.splits)

lemma LRU_pop_Some:
  "LRU_pop t = (Some a, t') \<Longrightarrow> expired t = a # expired t' \<and> t' = t\<lparr> expired := expired t' \<rparr>"
  by (auto simp: LRU_pop_def split: list.splits)

lemma LRU_prog_total:
  "length (live (LRU_prog n t)) + length (expired (LRU_prog n t)) =
   length (live t) + length (expired t)"
  using sum_length_filter_compl [of "\<lambda>e. fst e < clock t + n" "live t"]
  by (simp add: LRU_prog_def Let_def)

lemma LRU_prog_fields:
  "clock (LRU_prog n t) = clock t + n" "capacity (LRU_prog n t) = capacity t"
  by (simp_all add: LRU_prog_def Let_def)


section \<open>The loop of \<^verbatim>\<open>timeout_session\<close>\<close>

text \<open>The four ways through the body of the loop: the queue is empty, the popped node
  is no session, the popped session is outdated and deleted, or it is put back.\<close>

lemma loop_body_cases:
  assumes "(case LRU_pop (ssn_table d) of
        (None, t) \<Rightarrow> Some (d\<lparr> ssn_table := t \<rparr>, [])
      | (Some a, t) \<Rightarrow>
          (case objs d a of
             None \<Rightarrow> Some (d\<lparr> ssn_table := t \<rparr>, [Pop a])
           | Some outdated_ssn \<Rightarrow>
               if sint (ts outdated_ssn + TIMEOUT) < sint tv
               then
                 f tv (d\<lparr> ssn_table := t, objs := (objs d)(a := None) \<rparr>)
                   \<bind> (\<lambda>(d', calls). Some (d', Pop a # Delete a # calls))
               else
                 f tv (d\<lparr> ssn_table := LRU_put (unat TIMEOUT) a t \<rparr>)
                   \<bind> (\<lambda>(d', calls). Some (d', Pop a # Put (unat TIMEOUT) a # calls))))
      = Some r"
  obtains
    (empty) "expired (ssn_table d) = []" "r = (d, [])"
  | (alien) a rest where "expired (ssn_table d) = a # rest" "objs d a = None"
      "r = (d\<lparr> ssn_table := (ssn_table d)\<lparr> expired := rest \<rparr> \<rparr>, [Pop a])"
  | (old) a rest s d' calls where "expired (ssn_table d) = a # rest" "objs d a = Some s"
      "outdated tv s"
      "f tv (d\<lparr> ssn_table := (ssn_table d)\<lparr> expired := rest \<rparr>, objs := (objs d)(a := None) \<rparr>)
         = Some (d', calls)"
      "r = (d', Pop a # Delete a # calls)"
  | (fresh) a rest s d' calls where "expired (ssn_table d) = a # rest" "objs d a = Some s"
      "\<not> outdated tv s"
      "f tv (d\<lparr> ssn_table := LRU_put (unat TIMEOUT) a ((ssn_table d)\<lparr> expired := rest \<rparr>) \<rparr>)
         = Some (d', calls)"
      "r = (d', Pop a # Put (unat TIMEOUT) a # calls)"
proof (cases "expired (ssn_table d)")
  case Nil
  then show ?thesis
    using assms empty by (simp add: LRU_pop_def)
next
  case (Cons a rest)
  note c = Cons
  show ?thesis
  proof (cases "objs d a")
    case None
    then show ?thesis
      using assms c alien by (simp add: LRU_pop_def)
  next
    case (Some s)
    show ?thesis
    proof (cases "outdated tv s")
      case True
      then show ?thesis
        using assms c Some old [of a rest s]
        by (auto simp: LRU_pop_def split: bind_splits)
    next
      case False
      then show ?thesis
        using assms c Some fresh [of a rest s]
        by (auto simp: LRU_pop_def split: bind_splits)
    qed
  qed
qed

lemma timeout_loop_frame:
  assumes "timeout_loop tv d = Some r"
  shows "loop_frame tv d r"
proof (rule timeout_loop.raw_induct [where P = loop_frame, OF _ assms], goal_cases)
  case (1 f tv d r)
  from "1"(2) show ?case
  proof (cases rule: loop_body_cases)
    case empty
    then show ?thesis by (simp add: loop_frame_def)
  next
    case (alien a rest)
    then show ?thesis by (auto simp: loop_frame_def held_def)
  next
    case (old a rest s d' calls)
    from "1"(1) [OF old(4)] old(1,5) show ?thesis
      by (auto simp: loop_frame_def held_def)
  next
    case (fresh a rest s d' calls)
    have "held (LRU_put (unat TIMEOUT) a ((ssn_table d)\<lparr> expired := rest \<rparr>)) \<subseteq> held (ssn_table d)"
      using fresh(1) by (auto simp: LRU_put_held) (auto simp: held_def)
    with "1"(1) [OF fresh(4)] fresh(5) show ?thesis
      by (auto simp: loop_frame_def LRU_put_fields)
  qed
qed


lemma loop_ok_del:
  "loop_ok tv d (d', calls) \<Longrightarrow> Delete a \<in> set calls \<Longrightarrow>
   Pop a \<in> set calls \<and> (\<exists>s. objs d a = Some s \<and> outdated tv s) \<and> objs d' a = None"
  by (simp add: loop_ok_def)

lemma loop_ok_put:
  "loop_ok tv d (d', calls) \<Longrightarrow> Put ttl a \<in> set calls \<Longrightarrow>
   Pop a \<in> set calls \<and> (\<exists>s. objs d a = Some s \<and> \<not> outdated tv s) \<and>
   ((clock (ssn_table d) + unat TIMEOUT, a) \<in> set (live (ssn_table d')) \<or>
    a \<in> set (expired (ssn_table d')))"
  by (simp add: loop_ok_def)

lemma loop_ok_pop:
  "loop_ok tv d (d', calls) \<Longrightarrow> Pop a \<in> set calls \<Longrightarrow>
   a \<in> held (ssn_table d) \<and>
   (objs d a \<noteq> None \<longrightarrow> Delete a \<in> set calls \<or> Put (unat TIMEOUT) a \<in> set calls)"
  by (simp add: loop_ok_def)

lemma loop_ok_objs:
  "loop_ok tv d (d', calls) \<Longrightarrow>
   objs d' a = objs d a \<or> (Delete a \<in> set calls \<and> objs d' a = None)"
  by (simp add: loop_ok_def)

lemma loop_ok_keeps:
  "loop_ok tv d (d', calls) \<Longrightarrow> objs d a = Some s \<Longrightarrow> \<not> outdated tv s \<Longrightarrow>
   (clock (ssn_table d) + unat TIMEOUT, a) \<in> set (live (ssn_table d)) \<or>
     a \<in> set (expired (ssn_table d)) \<Longrightarrow>
   (clock (ssn_table d) + unat TIMEOUT, a) \<in> set (live (ssn_table d')) \<or>
     a \<in> set (expired (ssn_table d'))"
  unfolding loop_ok_def fst_conv snd_conv by blast

lemma timeout_loop_ok:
  assumes "timeout_loop tv d = Some r"
  shows "loop_ok tv d r"
proof (rule timeout_loop.raw_induct [where P = loop_ok, OF _ assms], goal_cases)
  case (1 f tv d r)
  from "1"(2) show ?case
  proof (cases rule: loop_body_cases)
    case empty
    then show ?thesis by (simp add: loop_ok_def)
  next
    case (alien a rest)
    then show ?thesis by (auto simp: loop_ok_def held_def)
  next
    case (old a rest s d' calls)
    let ?d = "d\<lparr> ssn_table := (ssn_table d)\<lparr> expired := rest \<rparr>, objs := (objs d)(a := None) \<rparr>"
    have ih: "loop_ok tv ?d (d', calls)"
      using "1"(1) [OF old(4)] .
    have da: "objs d' a = None"
      using loop_ok_objs [OF ih, of a] by auto
    have h: "held (ssn_table ?d) \<subseteq> held (ssn_table d)"
      using old(1) by (auto simp: held_def)
    have c1: "\<forall>b. Delete b \<in> set (Pop a # Delete a # calls) \<longrightarrow>
          Pop b \<in> set (Pop a # Delete a # calls) \<and>
          (\<exists>s. objs d b = Some s \<and> outdated tv s) \<and> objs d' b = None"
    proof (intro allI impI)
      fix b assume "Delete b \<in> set (Pop a # Delete a # calls)"
      then consider "b = a" | "Delete b \<in> set calls" by auto
      then show "Pop b \<in> set (Pop a # Delete a # calls) \<and>
          (\<exists>s. objs d b = Some s \<and> outdated tv s) \<and> objs d' b = None"
      proof cases
        case 1
        then show ?thesis using old(2,3) da by simp
      next
        case 2
        from loop_ok_del [OF ih 2] show ?thesis
          by (auto split: if_splits)
      qed
    qed
    have c2: "\<forall>ttl b. Put ttl b \<in> set (Pop a # Delete a # calls) \<longrightarrow>
          Pop b \<in> set (Pop a # Delete a # calls) \<and>
          (\<exists>s. objs d b = Some s \<and> \<not> outdated tv s) \<and>
          ((clock (ssn_table d) + unat TIMEOUT, b) \<in> set (live (ssn_table d')) \<or>
           b \<in> set (expired (ssn_table d')))"
    proof (intro allI impI)
      fix ttl b assume "Put ttl b \<in> set (Pop a # Delete a # calls)"
      then have "Put ttl b \<in> set calls" by simp
      from loop_ok_put [OF ih this]
      show "Pop b \<in> set (Pop a # Delete a # calls) \<and>
          (\<exists>s. objs d b = Some s \<and> \<not> outdated tv s) \<and>
          ((clock (ssn_table d) + unat TIMEOUT, b) \<in> set (live (ssn_table d')) \<or>
           b \<in> set (expired (ssn_table d')))"
        by (auto split: if_splits)
    qed
    have c3: "\<forall>b. Pop b \<in> set (Pop a # Delete a # calls) \<longrightarrow> b \<in> held (ssn_table d)"
    proof (intro allI impI)
      fix b assume "Pop b \<in> set (Pop a # Delete a # calls)"
      then consider "b = a" | "Pop b \<in> set calls" by auto
      then show "b \<in> held (ssn_table d)"
      proof cases
        case 1
        then show ?thesis using old(1) by (simp add: held_def)
      next
        case 2
        from loop_ok_pop [OF ih 2] h show ?thesis by auto
      qed
    qed
    have c4: "\<forall>b. Pop b \<in> set (Pop a # Delete a # calls) \<longrightarrow> objs d b \<noteq> None \<longrightarrow>
          Delete b \<in> set (Pop a # Delete a # calls) \<or> Put (unat TIMEOUT) b \<in> set (Pop a # Delete a # calls)"
    proof (intro allI impI)
      fix b assume p: "Pop b \<in> set (Pop a # Delete a # calls)" and o: "objs d b \<noteq> None"
      show "Delete b \<in> set (Pop a # Delete a # calls) \<or>
            Put (unat TIMEOUT) b \<in> set (Pop a # Delete a # calls)"
      proof (cases "b = a")
        case True
        then show ?thesis by simp
      next
        case False
        then have "Pop b \<in> set calls" using p by simp
        from loop_ok_pop [OF ih this] False o show ?thesis by auto
      qed
    qed
    have c5: "\<forall>b. objs d' b = objs d b \<or> (Delete b \<in> set (Pop a # Delete a # calls) \<and> objs d' b = None)"
    proof (intro allI impI)
      fix b
      show "objs d' b = objs d b \<or> (Delete b \<in> set (Pop a # Delete a # calls) \<and> objs d' b = None)"
        using loop_ok_objs [OF ih, of b] da by (cases "b = a") auto
    qed
    have c6: "\<forall>b sb. objs d b = Some sb \<and> \<not> outdated tv sb \<and>
          ((clock (ssn_table d) + unat TIMEOUT, b) \<in> set (live (ssn_table d)) \<or>
           b \<in> set (expired (ssn_table d))) \<longrightarrow>
          (clock (ssn_table d) + unat TIMEOUT, b) \<in> set (live (ssn_table d')) \<or>
          b \<in> set (expired (ssn_table d'))"
    proof (intro allI impI)
      fix b sb
      assume b: "objs d b = Some sb \<and> \<not> outdated tv sb \<and>
        ((clock (ssn_table d) + unat TIMEOUT, b) \<in> set (live (ssn_table d)) \<or>
         b \<in> set (expired (ssn_table d)))"
      then have ne: "b \<noteq> a" using old(2,3) by auto
      have "objs ?d b = Some sb" using b ne by simp
      moreover have "(clock (ssn_table ?d) + unat TIMEOUT, b) \<in> set (live (ssn_table ?d)) \<or>
         b \<in> set (expired (ssn_table ?d))"
        using b ne old(1) by auto
      ultimately have "(clock (ssn_table ?d) + unat TIMEOUT, b) \<in> set (live (ssn_table d')) \<or>
         b \<in> set (expired (ssn_table d'))"
        using loop_ok_keeps [OF ih, of b sb] b by blast
      then show "(clock (ssn_table d) + unat TIMEOUT, b) \<in> set (live (ssn_table d')) \<or>
                 b \<in> set (expired (ssn_table d'))"
        by simp
    qed
    show ?thesis
      unfolding old(5) loop_ok_def fst_conv snd_conv
      using c1 c2 c3 c4 c5 c6 by blast
  next
    case (fresh a rest s d' calls)
    let ?t1 = "(ssn_table d)\<lparr> expired := rest \<rparr>"
    let ?t2 = "LRU_put (unat TIMEOUT) a ?t1"
    let ?d = "d\<lparr> ssn_table := ?t2 \<rparr>"
    have ih: "loop_ok tv ?d (d', calls)"
      using "1"(1) [OF fresh(4)] .
    have h: "held ?t2 \<subseteq> held (ssn_table d)"
      using fresh(1) by (auto simp: LRU_put_held) (auto simp: held_def)
    have ck: "clock ?t2 = clock (ssn_table d)"
      by (simp add: LRU_put_fields)
    have ia: "(clock (ssn_table ?d) + unat TIMEOUT, a) \<in> set (live (ssn_table ?d))"
      using LRU_put_live(1) [of ?t1 "unat TIMEOUT" a] ck by simp
    have a': "(clock (ssn_table d) + unat TIMEOUT, a) \<in> set (live (ssn_table d')) \<or>
         a \<in> set (expired (ssn_table d'))"
      using loop_ok_keeps [OF ih, of a s] fresh(2,3) ia ck by simp
    have c1: "\<forall>b. Delete b \<in> set (Pop a # Put (unat TIMEOUT) a # calls) \<longrightarrow>
          Pop b \<in> set (Pop a # Put (unat TIMEOUT) a # calls) \<and>
          (\<exists>s. objs d b = Some s \<and> outdated tv s) \<and> objs d' b = None"
    proof (intro allI impI)
      fix b assume "Delete b \<in> set (Pop a # Put (unat TIMEOUT) a # calls)"
      then have "Delete b \<in> set calls" by simp
      from loop_ok_del [OF ih this]
      show "Pop b \<in> set (Pop a # Put (unat TIMEOUT) a # calls) \<and>
          (\<exists>s. objs d b = Some s \<and> outdated tv s) \<and> objs d' b = None"
        by auto
    qed
    have c2: "\<forall>ttl b. Put ttl b \<in> set (Pop a # Put (unat TIMEOUT) a # calls) \<longrightarrow>
          Pop b \<in> set (Pop a # Put (unat TIMEOUT) a # calls) \<and>
          (\<exists>s. objs d b = Some s \<and> \<not> outdated tv s) \<and>
          ((clock (ssn_table d) + unat TIMEOUT, b) \<in> set (live (ssn_table d')) \<or>
           b \<in> set (expired (ssn_table d')))"
    proof (intro allI impI)
      fix ttl b assume "Put ttl b \<in> set (Pop a # Put (unat TIMEOUT) a # calls)"
      then consider "b = a" | "Put ttl b \<in> set calls" by auto
      then show "Pop b \<in> set (Pop a # Put (unat TIMEOUT) a # calls) \<and>
          (\<exists>s. objs d b = Some s \<and> \<not> outdated tv s) \<and>
          ((clock (ssn_table d) + unat TIMEOUT, b) \<in> set (live (ssn_table d')) \<or>
           b \<in> set (expired (ssn_table d')))"
      proof cases
        case 1
        then show ?thesis using fresh(2,3) a' by simp
      next
        case 2
        from loop_ok_put [OF ih 2] ck show ?thesis by auto
      qed
    qed
    have c3: "\<forall>b. Pop b \<in> set (Pop a # Put (unat TIMEOUT) a # calls) \<longrightarrow> b \<in> held (ssn_table d)"
    proof (intro allI impI)
      fix b assume "Pop b \<in> set (Pop a # Put (unat TIMEOUT) a # calls)"
      then consider "b = a" | "Pop b \<in> set calls" by auto
      then show "b \<in> held (ssn_table d)"
      proof cases
        case 1
        then show ?thesis using fresh(1) by (simp add: held_def)
      next
        case 2
        from loop_ok_pop [OF ih 2] h show ?thesis by auto
      qed
    qed
    have c4: "\<forall>b. Pop b \<in> set (Pop a # Put (unat TIMEOUT) a # calls) \<longrightarrow> objs d b \<noteq> None \<longrightarrow>
          Delete b \<in> set (Pop a # Put (unat TIMEOUT) a # calls) \<or> Put (unat TIMEOUT) b \<in> set (Pop a # Put (unat TIMEOUT) a # calls)"
    proof (intro allI impI)
      fix b assume p: "Pop b \<in> set (Pop a # Put (unat TIMEOUT) a # calls)" and o: "objs d b \<noteq> None"
      show "Delete b \<in> set (Pop a # Put (unat TIMEOUT) a # calls) \<or>
            Put (unat TIMEOUT) b \<in> set (Pop a # Put (unat TIMEOUT) a # calls)"
      proof (cases "b = a")
        case True
        then show ?thesis by simp
      next
        case False
        then have "Pop b \<in> set calls" using p by simp
        from loop_ok_pop [OF ih this] o show ?thesis by auto
      qed
    qed
    have c5: "\<forall>b. objs d' b = objs d b \<or> (Delete b \<in> set (Pop a # Put (unat TIMEOUT) a # calls) \<and> objs d' b = None)"
    proof (intro allI impI)
      fix b
      show "objs d' b = objs d b \<or>
            (Delete b \<in> set (Pop a # Put (unat TIMEOUT) a # calls) \<and> objs d' b = None)"
        using loop_ok_objs [OF ih, of b] by auto
    qed
    have c6: "\<forall>b sb. objs d b = Some sb \<and> \<not> outdated tv sb \<and>
          ((clock (ssn_table d) + unat TIMEOUT, b) \<in> set (live (ssn_table d)) \<or>
           b \<in> set (expired (ssn_table d))) \<longrightarrow>
          (clock (ssn_table d) + unat TIMEOUT, b) \<in> set (live (ssn_table d')) \<or>
          b \<in> set (expired (ssn_table d'))"
    proof (intro allI impI)
      fix b sb
      assume b: "objs d b = Some sb \<and> \<not> outdated tv sb \<and>
        ((clock (ssn_table d) + unat TIMEOUT, b) \<in> set (live (ssn_table d)) \<or>
         b \<in> set (expired (ssn_table d)))"
      show "(clock (ssn_table d) + unat TIMEOUT, b) \<in> set (live (ssn_table d')) \<or>
            b \<in> set (expired (ssn_table d'))"
      proof (cases "b = a")
        case True
        then show ?thesis using a' by simp
      next
        case False
        have "(clock (ssn_table d) + unat TIMEOUT, b) \<in> set (live ?t1) \<or> b \<in> set (expired ?t1)"
          using b False fresh(1) by auto
        then have "(clock (ssn_table d) + unat TIMEOUT, b) \<in> set (live ?t2) \<or> b \<in> set (expired ?t2)"
          using LRU_put_live(2) [of "(clock (ssn_table d) + unat TIMEOUT, b)" ?t1 "unat TIMEOUT" a]
            LRU_put_live(3) [of ?t1 "unat TIMEOUT" a]
          by auto
        then have "(clock (ssn_table ?d) + unat TIMEOUT, b) \<in> set (live (ssn_table ?d)) \<or>
            b \<in> set (expired (ssn_table ?d))"
          using ck by simp
        from loop_ok_keeps [OF ih _ _ this, of sb] b ck show ?thesis by simp
      qed
    qed
    show ?thesis
      unfolding fresh(5) loop_ok_def fst_conv snd_conv
      using c1 c2 c3 c4 c5 c6 by blast
  qed
qed


text \<open>The loop returns when the table holds no more addresses than its capacity: a put
  then never expires anything, and every pass shortens the queue. On a crowded table
  it never returns.\<close>

lemma timeout_loop_returns:
  "length (live (ssn_table d)) + length (expired (ssn_table d)) \<le> capacity (ssn_table d)
   \<Longrightarrow> \<exists>r. timeout_loop tv d = Some r"
proof (induction "length (expired (ssn_table d))" arbitrary: d)
  case 0
  then show ?case
    by (subst timeout_loop.simps) (simp add: LRU_pop_def)
next
  case (Suc n)
  then obtain a rest where e: "expired (ssn_table d) = a # rest" and n: "n = length rest"
    by (cases "expired (ssn_table d)") auto
  let ?t1 = "(ssn_table d)\<lparr> expired := rest \<rparr>"
  have pop: "LRU_pop (ssn_table d) = (Some a, ?t1)"
    using e by (simp add: LRU_pop_def)
  show ?case
  proof (cases "objs d a")
    case None
    then show ?thesis
      using pop by (subst timeout_loop.simps) simp
  next
    case (Some s)
    show ?thesis
    proof (cases "outdated tv s")
      case True
      let ?d = "d\<lparr> ssn_table := ?t1, objs := (objs d)(a := None) \<rparr>"
      have "\<exists>r. timeout_loop tv ?d = Some r"
        using Suc.prems e n by (intro Suc.hyps(1)) simp_all
      then show ?thesis
        using pop Some True by (subst timeout_loop.simps) auto
    next
      case False
      have room: "length (live ?t1) < capacity ?t1"
        using Suc.prems e by simp
      let ?t2 = "LRU_put (unat TIMEOUT) a ?t1"
      let ?d = "d\<lparr> ssn_table := ?t2 \<rparr>"
      have t2: "?t2 = ?t1\<lparr> live := live ?t1 @ [(clock ?t1 + unat TIMEOUT, a)] \<rparr>"
        using LRU_put_room [OF room] .
      have "\<exists>r. timeout_loop tv ?d = Some r"
        using Suc.prems e n by (intro Suc.hyps(1)) (simp_all add: t2)
      then show ?thesis
        using pop Some False by (subst timeout_loop.simps) auto
    qed
  qed
qed




section \<open>Properties of the decoder\<close>

lemmas decoder_defs = decode_def fetch_session_def timeout_session_def LRU_prog_def LRU_pop_def
  LRU_put_def expire_oldest_def LRU_get_def LRUHash_new_def timeout_loop.simps TIMEOUT_def
  TcpSsnDecoder_new_def assign_event_def assign_value_def copy_def set_var_def push_event_def
  is_data_available_def server_stat_def client_stat_def set_ts_def match_def packet_def
  no_registry_def

lemma timeout_session_Some:
  assumes "timeout_session tv d = Some (d', calls)"
  shows "\<exists>l. timeout_loop tv
            ((if 0 < sint (last_ts d) \<and> sint (last_ts d) < sint tv
              then d\<lparr> ssn_table := LRU_prog (unat (tv - last_ts d)) (ssn_table d) \<rparr>
              else d)\<lparr> last_ts := tv \<rparr>) = Some (d', l) \<and>
           calls = (if 0 < sint (last_ts d) \<and> sint (last_ts d) < sint tv
                    then [Prog (unat (tv - last_ts d))] else []) @ l"
  using assms
  by (auto simp: timeout_session_def Let_def split: if_splits bind_splits)

lemma timeout_session_frame:
  assumes "timeout_session tv d = Some (d1, calls)"
  shows "d1 = d\<lparr> ssn_table := ssn_table d1, last_ts := tv, objs := objs d1 \<rparr>"
proof -
  let ?d2 = "(if 0 < sint (last_ts d) \<and> sint (last_ts d) < sint tv
              then d\<lparr> ssn_table := LRU_prog (unat (tv - last_ts d)) (ssn_table d) \<rparr>
              else d)\<lparr> last_ts := tv \<rparr>"
  from timeout_session_Some [OF assms] obtain l where l: "timeout_loop tv ?d2 = Some (d1, l)"
    by blast
  have "loop_frame tv ?d2 (d1, l)"
    using timeout_loop_frame [OF l] .
  then have f: "d1 = ?d2\<lparr> ssn_table := ssn_table d1, objs := objs d1 \<rparr>"
    unfolding loop_frame_def fst_conv snd_conv by blast
  have "?d2\<lparr> ssn_table := ssn_table d1, objs := objs d1 \<rparr> =
        d\<lparr> ssn_table := ssn_table d1, last_ts := tv, objs := objs d1 \<rparr>"
    by simp
  with f show ?thesis by simp
qed

lemma timeout_session_returns:
  assumes "length (live (ssn_table d)) + length (expired (ssn_table d)) \<le> capacity (ssn_table d)"
  shows "\<exists>r. timeout_session tv d = Some r"
proof -
  let ?d2 = "(if 0 < sint (last_ts d) \<and> sint (last_ts d) < sint tv
              then d\<lparr> ssn_table := LRU_prog (unat (tv - last_ts d)) (ssn_table d) \<rparr>
              else d)\<lparr> last_ts := tv \<rparr>"
  have "length (live (ssn_table ?d2)) + length (expired (ssn_table ?d2)) \<le> capacity (ssn_table ?d2)"
    using assms by (simp add: LRU_prog_total LRU_prog_fields)
  from timeout_loop_returns [OF this, of tv] obtain r where "timeout_loop tv ?d2 = Some r"
    by blast
  then show ?thesis
    by (cases r) (auto simp: timeout_session_def Let_def)
qed

lemma LRU_get_Some:
  "LRU_get h hv k t = Some a \<Longrightarrow> \<exists>s. h a = Some s \<and> hash s = hv \<and> key s = k"
  by (auto simp: LRU_get_def find_Some_iff match_def split: option.splits)

lemma fetch_session_obj:
  assumes "fetch_session p d = (a, d')"
  shows "\<exists>s. objs d' a = Some s \<and> key s = ssn_label p \<and> hash s = hash_value p \<and>
             ts s = tv_sec p"
proof (cases "LRU_get (objs d) (hash_value p) (ssn_label p) (ssn_table d)")
  case None
  then show ?thesis
    using assms by (auto simp: fetch_session_def Let_def TcpSession_new_def set_ts_def)
next
  case (Some b)
  from LRU_get_Some [OF Some] obtain s where
    "objs d b = Some s" "hash s = hash_value p" "key s = ssn_label p" by blast
  then show ?thesis
    using assms Some by (auto simp: fetch_session_def Let_def set_ts_def)
qed

lemma fetch_session_new:
  assumes "LRU_get (objs d) (hash_value p) (ssn_label p) (ssn_table d) = None"
  shows "fetch_session p d =
     (next_obj d,
      d\<lparr> objs := (objs d)(next_obj d \<mapsto> (TcpSession_new (ssn_label p) (hash_value p))\<lparr> ts := tv_sec p \<rparr>),
         next_obj := Suc (next_obj d),
         ssn_table := LRU_put (unat TIMEOUT) (next_obj d) (ssn_table d) \<rparr>)"
  using assms by (simp add: fetch_session_def Let_def set_ts_def)

lemma fetch_session_ids:
  assumes "fetch_session p d = (a, d')"
  shows "EV_EST d' = EV_EST d \<and> EV_DATA d' = EV_DATA d \<and> P_SEG d' = P_SEG d \<and>
         P_TO_SERVER d' = P_TO_SERVER d \<and> P_SERVER_STAT d' = P_SERVER_STAT d \<and>
         P_CLIENT_STAT d' = P_CLIENT_STAT d \<and> last_ts d' = last_ts d"
  using assms by (auto simp: fetch_session_def Let_def split: option.splits)

lemma update_keeps:
  assumes "update flags seq ack len d s = Some (rc, s')"
  shows "key s' = key s \<and> hash s' = hash s \<and> ts s' = ts s"
  using assms
  by (auto simp: update_def Let_def split: if_splits bind_splits prod.splits)

lemma decode_eq:
  assumes "timeout_session (tv_sec p) d = Some (d1, calls)"
    and "fetch_session p d1 = (a, d2)"
    and "objs d2 a = Some s0"
    and "update (tcp_flags p) (tcp_seq p) (tcp_ack p) (remain p) (pdir p) s0 = Some (rc, s)"
  shows "decode p d =
     Some (True,
           p\<lparr> vars := vars p @ written d p rc s, events := events p @ pushed d p rc s \<rparr>,
           d2\<lparr> objs := (objs d2)(a \<mapsto> s) \<rparr>)"
  using assms
  by (simp add: decode_def Let_def written_def pushed_def copy_def set_var_def push_event_def)

lemma decode_after_timeout:
  assumes "timeout_session (tv_sec p) d = Some (d1, calls)"
  shows "\<exists>a d2 s0 rc s.
     fetch_session p d1 = (a, d2) \<and>
     objs d2 a = Some s0 \<and> key s0 = ssn_label p \<and> hash s0 = hash_value p \<and>
     ts s0 = tv_sec p \<and>
     update (tcp_flags p) (tcp_seq p) (tcp_ack p) (remain p) (pdir p) s0 = Some (rc, s) \<and>
     decode p d =
       Some (True,
             p\<lparr> vars := vars p @ written d p rc s, events := events p @ pushed d p rc s \<rparr>,
             d2\<lparr> objs := (objs d2)(a \<mapsto> s) \<rparr>)"
proof -
  obtain a d2 where f: "fetch_session p d1 = (a, d2)"
    by (cases "fetch_session p d1")
  from fetch_session_obj [OF f] obtain s0 where
    s0: "objs d2 a = Some s0" "key s0 = ssn_label p" "hash s0 = hash_value p" "ts s0 = tv_sec p"
    by blast
  obtain rc s where
    u: "update (tcp_flags p) (tcp_seq p) (tcp_ack p) (remain p) (pdir p) s0 = Some (rc, s)"
    using update_Some by blast
  show ?thesis
    using f s0 u decode_eq [OF assms f s0(1) u] by blast
qed

lemma decode_Some:
  assumes "decode p d = Some r"
  shows "\<exists>d1 calls. timeout_session (tv_sec p) d = Some (d1, calls)"
  using assms by (cases "timeout_session (tv_sec p) d") (auto simp: decode_def)


lemmas scenario_defs = handshake_pkts_def data_pkt_def pre_syn_pkt_def handshake_dec_def
  data_ssn_def data_dec_def data_out_def flow_a_def flow_b_def

lemma two_flows_timeout:
  "timeout_session 1301 two_flows_dec =
     Some (two_flows_dec\<lparr> ssn_table := \<lparr> max_ttl = 3600, capacity = 0xffff, clock = 301,
                                     live = [(601, 1)], expired = [] \<rparr>,
                     last_ts := 1301,
                     objs := [1 \<mapsto> (TcpSession_new flow_b 2)\<lparr> ts := 1200 \<rparr>] \<rparr>,
      [Prog 101, Pop 0, Delete 0, Pop 1, Put 300 1])"
  by (simp add: timeout_session_def two_flows_dec_def LRU_prog_def LRU_pop_def LRU_put_def
      timeout_loop.simps TIMEOUT_def Let_def TcpSession_new_def fun_upd_twist)

lemma two_flows_reached:
  "map_option snd
     (decodes [packet 1000 flow_a 1 DIR_L2R ACK 7 7 0, packet 1000 flow_b 2 DIR_L2R ACK 7 7 0,
               packet 1200 flow_b 2 DIR_L2R ACK 7 7 0]
        (fst (TcpSsnDecoder_new no_registry)))
   = Some two_flows_dec"
  by (simp add: decoder_defs eval_defs two_flows_dec_def flow_a_def flow_b_def fun_upd_twist)

lemma handshake_reached:
  "map_option snd (decodes handshake_pkts (fst (TcpSsnDecoder_new no_registry)))
     = Some handshake_dec"
  by (simp add: decoder_defs eval_defs scenario_defs)

lemma handshake_outputs:
  "map_option (map (\<lambda>q. (vars q, events q)) \<circ> fst)
     (decodes handshake_pkts (fst (TcpSsnDecoder_new no_registry)))
   = Some [([(1, BoolVar True), (2, StatVar LISTEN), (3, StatVar SYN_SENT)], []),
           ([(1, BoolVar False), (2, StatVar SYN_RCVD), (3, StatVar SYN_SENT)], []),
           ([(1, BoolVar True), (2, StatVar SYN_RCVD), (3, StatVar ESTABLISHED)], [])]"
  by (simp add: decoder_defs eval_defs scenario_defs)

lemma data_pkt_decoded: "decode data_pkt handshake_dec = Some (True, data_out, data_dec)"
  by (simp add: decoder_defs eval_defs scenario_defs)


subsection \<open>The timeout pass\<close>

lemma outdated_int:
  fixes t tv :: time_t
  assumes "sint t + 300 < 2 ^ 63"
  shows "sint (t + TIMEOUT) < sint tv \<longleftrightarrow> sint t + 300 < sint tv"
proof -
  have lo: "- (2 ^ 63) \<le> sint t"
    using sint_ge [of t] by simp
  have c: "sint TIMEOUT = 300"
    by (simp add: TIMEOUT_def)
  have "sint (t + TIMEOUT) = signed_take_bit 63 (sint t + 300)"
    using sint_word_ariths(1) [of t TIMEOUT] c by simp
  also have "\<dots> = sint t + 300"
    using assms lo by (intro signed_take_bit_int_eq_self) simp_all
  finally show ?thesis by simp
qed

text \<open>
  Claim C5. For every call of \<^verbatim>\<open>timeout_session(now)\<close> that returns: the table's
  \<^verbatim>\<open>prog\<close> is called iff the remembered \<^verbatim>\<open>last_ts\<close> is positive and less than
  \<^verbatim>\<open>now\<close>, with \<^verbatim>\<open>now - last_ts\<close>, so the clock stands still otherwise; \<^verbatim>\<open>last_ts\<close>
  becomes \<^verbatim>\<open>now\<close>. Every session popped from the expired queue is destroyed iff
  \<^verbatim>\<open>ts + TIMEOUT < now\<close>, and then its object is gone; otherwise it is put back with
  the TTL \<^verbatim>\<open>TIMEOUT\<close> = 300, its object is the one it was, and the table holds it.
  Nothing else is deleted or put, and the objects that were not popped are as they were.
  The comparison is the one of \<^verbatim>\<open>time_t\<close>; it is the comparison of the integers
  whenever \<^verbatim>\<open>ts + 300\<close> is below \<open>2\<^sup>6\<^sup>3\<close>.
\<close>

theorem timeout_session_calls:
  "timeout_session tv d = Some (d', calls) \<longrightarrow>
     ((\<exists>n. Prog n \<in> set calls) \<longleftrightarrow> 0 < sint (last_ts d) \<and> sint (last_ts d) < sint tv) \<and>
     (\<forall>n. Prog n \<in> set calls \<longrightarrow> n = unat (tv - last_ts d)) \<and>
     clock (ssn_table d') =
       clock (ssn_table d) +
       (if 0 < sint (last_ts d) \<and> sint (last_ts d) < sint tv then unat (tv - last_ts d) else 0) \<and>
     last_ts d' = tv \<and>
     (\<forall>a s. Pop a \<in> set calls \<and> objs d a = Some s \<longrightarrow>
        (Delete a \<in> set calls \<longleftrightarrow> sint (ts s + TIMEOUT) < sint tv) \<and>
        (Put (unat TIMEOUT) a \<in> set calls \<longleftrightarrow> \<not> sint (ts s + TIMEOUT) < sint tv) \<and>
        (objs d' a = None \<longleftrightarrow> sint (ts s + TIMEOUT) < sint tv) \<and>
        (objs d' a = Some s \<longleftrightarrow> \<not> sint (ts s + TIMEOUT) < sint tv)) \<and>
     (\<forall>a. Delete a \<in> set calls \<longrightarrow> Pop a \<in> set calls \<and> objs d' a = None) \<and>
     (\<forall>ttl a. Put ttl a \<in> set calls \<longrightarrow>
        Pop a \<in> set calls \<and> ttl = unat TIMEOUT \<and> ttl = 300 \<and>
        objs d a \<noteq> None \<and> objs d' a = objs d a \<and>
        ((clock (ssn_table d') + 300, a) \<in> set (live (ssn_table d')) \<or>
         a \<in> set (expired (ssn_table d')))) \<and>
     (\<forall>a. Pop a \<notin> set calls \<longrightarrow> objs d' a = objs d a) \<and>
     (\<forall>t :: time_t. sint t + 300 < 2 ^ 63 \<longrightarrow>
        (sint (t + TIMEOUT) < sint tv \<longleftrightarrow> sint t + 300 < sint tv))"
proof
  assume tsn: "timeout_session tv d = Some (d', calls)"
  let ?c = "0 < sint (last_ts d) \<and> sint (last_ts d) < sint tv"
  let ?d2 = "(if ?c then d\<lparr> ssn_table := LRU_prog (unat (tv - last_ts d)) (ssn_table d) \<rparr>
              else d)\<lparr> last_ts := tv \<rparr>"
  from timeout_session_Some [OF tsn] obtain l where
    r: "timeout_loop tv ?d2 = Some (d', l)"
    and calls: "calls = (if ?c then [Prog (unat (tv - last_ts d))] else []) @ l"
    by blast
  have ok: "loop_ok tv ?d2 (d', l)"
    using timeout_loop_ok [OF r] .
  have fr: "loop_frame tv ?d2 (d', l)"
    using timeout_loop_frame [OF r] .
  have o2: "objs ?d2 = objs d" by simp
  have c2: "clock (ssn_table ?d2) = clock (ssn_table d) + (if ?c then unat (tv - last_ts d) else 0)"
    by (simp add: LRU_prog_fields)
  have np: "\<forall>n. Prog n \<notin> set l" and pt: "\<forall>ttl a. Put ttl a \<in> set l \<longrightarrow> ttl = unat TIMEOUT"
    and c3: "clock (ssn_table d') = clock (ssn_table ?d2)"
    using fr unfolding loop_frame_def fst_conv snd_conv by blast+
  have "last_ts d' = last_ts (d\<lparr> ssn_table := ssn_table d', last_ts := tv, objs := objs d' \<rparr>)"
    using timeout_session_frame [OF tsn] by simp
  then have l3: "last_ts d' = tv"
    by simp
  have ck: "clock (ssn_table d') =
       clock (ssn_table d) + (if ?c then unat (tv - last_ts d) else 0)"
    using c2 c3 by simp
  have t300: "unat TIMEOUT = 300"
    by (simp add: TIMEOUT_def)
  have del: "Delete a \<in> set l \<Longrightarrow>
      Pop a \<in> set l \<and> (\<exists>s. objs d a = Some s \<and> outdated tv s) \<and> objs d' a = None" for a
    using loop_ok_del [OF ok, of a] o2 by simp
  have put: "Put ttl a \<in> set l \<Longrightarrow>
      Pop a \<in> set l \<and> (\<exists>s. objs d a = Some s \<and> \<not> outdated tv s) \<and>
      ((clock (ssn_table d') + 300, a) \<in> set (live (ssn_table d')) \<or>
       a \<in> set (expired (ssn_table d')))" for ttl a
    using loop_ok_put [OF ok, of ttl a] o2 c3 t300 by simp
  have pop: "Pop a \<in> set l \<Longrightarrow> objs d a \<noteq> None \<Longrightarrow>
      Delete a \<in> set l \<or> Put (unat TIMEOUT) a \<in> set l" for a
    using loop_ok_pop [OF ok, of a] o2 by simp
  have mono: "objs d' a = objs d a \<or> (Delete a \<in> set l \<and> objs d' a = None)" for a
    using loop_ok_objs [OF ok, of a] o2 by simp
  have sets: "Prog n \<in> set calls \<longleftrightarrow> ?c \<and> n = unat (tv - last_ts d)"
      "Pop a \<in> set calls \<longleftrightarrow> Pop a \<in> set l"
      "Delete a \<in> set calls \<longleftrightarrow> Delete a \<in> set l"
      "Put ttl a \<in> set calls \<longleftrightarrow> Put ttl a \<in> set l" for n a ttl
    using np by (auto simp: calls)
  have popped: "(Delete a \<in> set l \<longleftrightarrow> outdated tv s) \<and>
        (Put (unat TIMEOUT) a \<in> set l \<longleftrightarrow> \<not> outdated tv s) \<and>
        (objs d' a = None \<longleftrightarrow> outdated tv s) \<and>
        (objs d' a = Some s \<longleftrightarrow> \<not> outdated tv s)"
    if h: "Pop a \<in> set l \<and> objs d a = Some s" for a s
  proof (cases "outdated tv s")
    case True
    have np: "Put (unat TIMEOUT) a \<notin> set l"
      using put [of "unat TIMEOUT" a] h True by auto
    then have "Delete a \<in> set l"
      using pop [of a] h by auto
    then show ?thesis
      using del [of a] True np by auto
  next
    case False
    have nd: "Delete a \<notin> set l"
      using del [of a] h False by auto
    then have "Put (unat TIMEOUT) a \<in> set l"
      using pop [of a] h by auto
    then show ?thesis
      using mono [of a] nd h False by auto
  qed
  have puts: "Pop a \<in> set l \<and> ttl = unat TIMEOUT \<and> ttl = 300 \<and>
        objs d a \<noteq> None \<and> objs d' a = objs d a \<and>
        ((clock (ssn_table d') + 300, a) \<in> set (live (ssn_table d')) \<or>
         a \<in> set (expired (ssn_table d')))"
    if h: "Put ttl a \<in> set l" for ttl a
  proof -
    have "Delete a \<notin> set l"
      using del [of a] put [OF h] by auto
    then have "objs d' a = objs d a"
      using mono [of a] by auto
    then show ?thesis
      using put [OF h] pt h t300 by auto
  qed
  have unpopped: "objs d' a = objs d a" if "Pop a \<notin> set l" for a
    using mono [of a] del [of a] that by auto
  show "((\<exists>n. Prog n \<in> set calls) \<longleftrightarrow> ?c) \<and>
     (\<forall>n. Prog n \<in> set calls \<longrightarrow> n = unat (tv - last_ts d)) \<and>
     clock (ssn_table d') =
       clock (ssn_table d) + (if ?c then unat (tv - last_ts d) else 0) \<and>
     last_ts d' = tv \<and>
     (\<forall>a s. Pop a \<in> set calls \<and> objs d a = Some s \<longrightarrow>
        (Delete a \<in> set calls \<longleftrightarrow> sint (ts s + TIMEOUT) < sint tv) \<and>
        (Put (unat TIMEOUT) a \<in> set calls \<longleftrightarrow> \<not> sint (ts s + TIMEOUT) < sint tv) \<and>
        (objs d' a = None \<longleftrightarrow> sint (ts s + TIMEOUT) < sint tv) \<and>
        (objs d' a = Some s \<longleftrightarrow> \<not> sint (ts s + TIMEOUT) < sint tv)) \<and>
     (\<forall>a. Delete a \<in> set calls \<longrightarrow> Pop a \<in> set calls \<and> objs d' a = None) \<and>
     (\<forall>ttl a. Put ttl a \<in> set calls \<longrightarrow>
        Pop a \<in> set calls \<and> ttl = unat TIMEOUT \<and> ttl = 300 \<and>
        objs d a \<noteq> None \<and> objs d' a = objs d a \<and>
        ((clock (ssn_table d') + 300, a) \<in> set (live (ssn_table d')) \<or>
         a \<in> set (expired (ssn_table d')))) \<and>
     (\<forall>a. Pop a \<notin> set calls \<longrightarrow> objs d' a = objs d a) \<and>
     (\<forall>t :: time_t. sint t + 300 < 2 ^ 63 \<longrightarrow>
        (sint (t + TIMEOUT) < sint tv \<longleftrightarrow> sint t + 300 < sint tv))"
    unfolding sets
  proof (intro conjI)
    show "(\<exists>n. ?c \<and> n = unat (tv - last_ts d)) \<longleftrightarrow> ?c" by blast
    show "\<forall>n. ?c \<and> n = unat (tv - last_ts d) \<longrightarrow> n = unat (tv - last_ts d)" by blast
    show "clock (ssn_table d') =
       clock (ssn_table d) + (if ?c then unat (tv - last_ts d) else 0)" by (rule ck)
    show "last_ts d' = tv" by (rule l3)
    show "\<forall>a s. Pop a \<in> set l \<and> objs d a = Some s \<longrightarrow>
        (Delete a \<in> set l \<longleftrightarrow> sint (ts s + TIMEOUT) < sint tv) \<and>
        (Put (unat TIMEOUT) a \<in> set l \<longleftrightarrow> \<not> sint (ts s + TIMEOUT) < sint tv) \<and>
        (objs d' a = None \<longleftrightarrow> sint (ts s + TIMEOUT) < sint tv) \<and>
        (objs d' a = Some s \<longleftrightarrow> \<not> sint (ts s + TIMEOUT) < sint tv)"
      using popped by blast
    show "\<forall>a. Delete a \<in> set l \<longrightarrow> Pop a \<in> set l \<and> objs d' a = None"
      using del by blast
    show "\<forall>ttl a. Put ttl a \<in> set l \<longrightarrow>
        Pop a \<in> set l \<and> ttl = unat TIMEOUT \<and> ttl = 300 \<and>
        objs d a \<noteq> None \<and> objs d' a = objs d a \<and>
        ((clock (ssn_table d') + 300, a) \<in> set (live (ssn_table d')) \<or>
         a \<in> set (expired (ssn_table d')))"
      using puts by blast
    show "\<forall>a. Pop a \<notin> set l \<longrightarrow> objs d' a = objs d a"
      using unpopped by blast
    show "\<forall>t :: time_t. sint t + 300 < 2 ^ 63 \<longrightarrow>
        (sint (t + TIMEOUT) < sint tv \<longleftrightarrow> sint t + 300 < sint tv)"
      using outdated_int by blast
  qed
qed


theorem timeout_session_calls_witness:
  "timeout_session 1301 two_flows_dec
     = Some (the (map_option fst (timeout_session 1301 two_flows_dec)),
             [Prog 101, Pop 0, Delete 0, Pop 1, Put 300 1]) \<and>
   0 < sint (last_ts two_flows_dec) \<and> sint (last_ts two_flows_dec) < sint (1301 :: time_t) \<and>
   unat (1301 - last_ts two_flows_dec) = 101 \<and>
   map_option ts (objs two_flows_dec 0) = Some 1000 \<and>
   sint (1000 + TIMEOUT) < sint (1301 :: time_t) \<and>
   map_option ts (objs two_flows_dec 1) = Some 1200 \<and>
   \<not> sint (1200 + TIMEOUT) < sint (1301 :: time_t) \<and>
   unat TIMEOUT = 300 \<and>
   last_ts (the (map_option fst (timeout_session 1301 two_flows_dec))) = 1301 \<and>
   clock (ssn_table (the (map_option fst (timeout_session 1301 two_flows_dec)))) = 301 \<and>
   objs (the (map_option fst (timeout_session 1301 two_flows_dec))) 0 = None \<and>
   objs (the (map_option fst (timeout_session 1301 two_flows_dec))) 1 = objs two_flows_dec 1 \<and>
   live (ssn_table (the (map_option fst (timeout_session 1301 two_flows_dec)))) = [(601, 1)]"
proof -
  let ?d' = "the (map_option fst (timeout_session 1301 two_flows_dec))"
  have h: "timeout_session 1301 two_flows_dec
     = Some (?d', [Prog 101, Pop 0, Delete 0, Pop 1, Put 300 1])"
    by (simp add: two_flows_timeout)
  have v: "last_ts two_flows_dec = 1200 \<and>
     map_option ts (objs two_flows_dec 0) = Some 1000 \<and>
     map_option ts (objs two_flows_dec 1) = Some 1200 \<and>
     clock (ssn_table two_flows_dec) = 200"
    by (simp add: two_flows_dec_def)
  have l: "live (ssn_table ?d') = [(601, 1)]"
    by (simp add: two_flows_timeout)
  show ?thesis
    using h v l
      timeout_session_calls [of 1301 two_flows_dec ?d' "[Prog 101, Pop 0, Delete 0, Pop 1, Put 300 1]",
          THEN mp, OF h]
    by (auto simp: TIMEOUT_def)
qed

text \<open>Where \<^verbatim>\<open>ts + TIMEOUT\<close> passes \<open>2\<^sup>6\<^sup>3 - 1\<close> the sum is negative, and the session
  is deleted although its timestamp lies in the future.\<close>

lemma wrapped_deadline: "sint (0x7FFFFFFFFFFFFFF5 + TIMEOUT) < sint (1301 :: time_t)"
  by (simp add: TIMEOUT_def)

lemma wrapped_deadline_deleted:
  "map_option snd
     (timeout_session 1301
        (two_flows_dec\<lparr> objs := (objs two_flows_dec)
           (0 \<mapsto> (TcpSession_new flow_a 1)\<lparr> ts := 0x7FFFFFFFFFFFFFF5 \<rparr>) \<rparr>))
   = Some [Prog 101, Pop 0, Delete 0, Pop 1, Put 300 1]"
  by (simp add: timeout_session_def two_flows_dec_def LRU_prog_def LRU_pop_def LRU_put_def
      timeout_loop.simps TIMEOUT_def Let_def TcpSession_new_def)

subsection \<open>The events\<close>

lemma decode_ids:
  assumes "decode p d = Some (rc, p', d')"
  shows "EV_EST d' = EV_EST d \<and> EV_DATA d' = EV_DATA d"
proof -
  from decode_Some [OF assms] obtain d1 calls where
    t: "timeout_session (tv_sec p) d = Some (d1, calls)" by blast
  from decode_after_timeout [OF t] obtain a d2 s where
    f: "fetch_session p d1 = (a, d2)"
    and d': "d' = d2\<lparr> objs := (objs d2)(a \<mapsto> s) \<rparr>"
    using assms by auto
  have "EV_EST d1 = EV_EST (d\<lparr> ssn_table := ssn_table d1, last_ts := tv_sec p,
        objs := objs d1 \<rparr>)"
    "EV_DATA d1 = EV_DATA (d\<lparr> ssn_table := ssn_table d1, last_ts := tv_sec p,
        objs := objs d1 \<rparr>)"
    using timeout_session_frame [OF t] by simp_all
  then have "EV_EST d1 = EV_EST d" "EV_DATA d1 = EV_DATA d"
    by simp_all
  then show ?thesis
    using fetch_session_ids [OF f] d' by simp
qed

text \<open>
  Claim C8. The constructor registers the event \<^verbatim>\<open>tcp_ssn.established\<close> (and
  \<^verbatim>\<open>tcp_ssn.data\<close>, under another id), and \<^verbatim>\<open>decode\<close> never pushes it: for every
  packet that \<^verbatim>\<open>decode\<close> processes, the events of the Property are left as they were
  or extended by the one event \<^verbatim>\<open>tcp_ssn.data\<close>; the two ids of the decoder stay what
  they were.
\<close>

theorem only_data_event_pushed:
  "event_names (snd (TcpSsnDecoder_new nd)) ! EV_EST (fst (TcpSsnDecoder_new nd))
     = ''tcp_ssn.established'' \<and>
   event_names (snd (TcpSsnDecoder_new nd)) ! EV_DATA (fst (TcpSsnDecoder_new nd))
     = ''tcp_ssn.data'' \<and>
   EV_EST (fst (TcpSsnDecoder_new nd)) \<noteq> EV_DATA (fst (TcpSsnDecoder_new nd)) \<and>
   (decode p d = Some (rc, p', d') \<longrightarrow>
      (events p' = events p \<or> events p' = events p @ [EV_DATA d]) \<and>
      EV_EST d' = EV_EST d \<and> EV_DATA d' = EV_DATA d)"
proof -
  have reg: "event_names (snd (TcpSsnDecoder_new nd)) ! EV_EST (fst (TcpSsnDecoder_new nd))
     = ''tcp_ssn.established'' \<and>
   event_names (snd (TcpSsnDecoder_new nd)) ! EV_DATA (fst (TcpSsnDecoder_new nd))
     = ''tcp_ssn.data'' \<and>
   EV_EST (fst (TcpSsnDecoder_new nd)) \<noteq> EV_DATA (fst (TcpSsnDecoder_new nd))"
    by (simp add: TcpSsnDecoder_new_def assign_event_def assign_value_def nth_append)
  have "(events p' = events p \<or> events p' = events p @ [EV_DATA d]) \<and>
      EV_EST d' = EV_EST d \<and> EV_DATA d' = EV_DATA d"
    if dec: "decode p d = Some (rc, p', d')"
  proof -
    from decode_Some [OF dec] obtain d1 calls where
      t: "timeout_session (tv_sec p) d = Some (d1, calls)" by blast
    from decode_after_timeout [OF t] dec obtain r s where
      "events p' = events p @ pushed d p r s"
      by auto
    then have "events p' = events p \<or> events p' = events p @ [EV_DATA d]"
      by (simp add: pushed_def)
    then show ?thesis
      using decode_ids [OF dec] by blast
  qed
  then show ?thesis
    using reg by blast
qed

theorem only_data_event_pushed_witness:
  "event_names (snd (TcpSsnDecoder_new no_registry)) = [''tcp_ssn.established'', ''tcp_ssn.data''] \<and>
   EV_EST (fst (TcpSsnDecoder_new no_registry)) = 0 \<and>
   EV_DATA (fst (TcpSsnDecoder_new no_registry)) = 1 \<and>
   decode data_pkt handshake_dec = Some (True, data_out, data_dec) \<and>
   events data_pkt = [] \<and>
   events data_out = [EV_DATA handshake_dec] \<and>
   EV_EST handshake_dec \<noteq> EV_DATA handshake_dec \<and>
   EV_DATA data_dec = EV_DATA handshake_dec"
proof -
  have r: "event_names (snd (TcpSsnDecoder_new no_registry))
      = [''tcp_ssn.established'', ''tcp_ssn.data''] \<and>
    EV_EST (fst (TcpSsnDecoder_new no_registry)) = 0 \<and>
    EV_DATA (fst (TcpSsnDecoder_new no_registry)) = 1 \<and>
    EV_EST handshake_dec \<noteq> EV_DATA handshake_dec"
    by (simp add: TcpSsnDecoder_new_def assign_event_def assign_value_def no_registry_def
        handshake_dec_def)
  have e: "events data_out \<noteq> events data_pkt \<and> events data_pkt = []"
    by (simp add: data_out_def data_pkt_def packet_def)
  show ?thesis
    using r e data_pkt_decoded
      only_data_event_pushed [of no_registry data_pkt handshake_dec True data_out data_dec]
    by auto
qed

subsection \<open>What \<^verbatim>\<open>decode\<close> returns\<close>

text \<open>\<^verbatim>\<open>decode\<close> never returns false. It returns, and returns true, whenever its
  timeout pass returns, as it does when the table holds no more addresses than its
  capacity.\<close>

lemma decode_returns_with_room:
  "(decode p d = Some (rc, p', d') \<longrightarrow> rc) \<and>
   (timeout_session (tv_sec p) d \<noteq> None \<longrightarrow> (\<exists>p' d'. decode p d = Some (True, p', d'))) \<and>
   (length (live (ssn_table d)) + length (expired (ssn_table d)) \<le> capacity (ssn_table d)
      \<longrightarrow> (\<exists>p' d'. decode p d = Some (True, p', d')))"
proof -
  have ret: "\<exists>p' d'. decode p d = Some (True, p', d')"
    if "timeout_session (tv_sec p) d \<noteq> None"
  proof -
    from that obtain d1 calls where "timeout_session (tv_sec p) d = Some (d1, calls)"
      by (cases "timeout_session (tv_sec p) d") auto
    from decode_after_timeout [OF this] show ?thesis by blast
  qed
  have "rc" if dec: "decode p d = Some (rc, p', d')"
  proof -
    from decode_Some [OF dec] have "timeout_session (tv_sec p) d \<noteq> None" by auto
    from ret [OF this] dec show ?thesis by auto
  qed
  moreover have "\<exists>p' d'. decode p d = Some (True, p', d')"
    if "length (live (ssn_table d)) + length (expired (ssn_table d)) \<le> capacity (ssn_table d)"
    using timeout_session_returns [OF that, of "tv_sec p"] ret by auto
  ultimately show ?thesis
    using ret by blast
qed

subsection \<open>The data event\<close>

text \<open>
  Claim C2, amended. For every packet for which the decoder pushes an event, the event
  is \<^verbatim>\<open>tcp_ssn.data\<close>, the packet's \<^verbatim>\<open>data_len\<close> is positive, and in the packet's
  session the sending endpoint (the client when the packet goes the session's way, else
  the server) is ESTABLISHED and was not updated by this packet; the attributes written
  are \<^verbatim>\<open>to_server\<close>, the segment, and the two states. Nothing is required of the
  receiving endpoint: on the fourth packet of the handshake scenario
  (L2R, ACK, 1001, 5001, 100) the server stays in SYN_RCVD, and the data event is pushed
  with a segment of 100 bytes and \<^verbatim>\<open>to_server\<close> true.
\<close>

theorem data_event_sender_established:
  "(decode p d = Some (rc, p', d') \<and> events p' \<noteq> events p \<longrightarrow>
      events p' = events p @ [EV_DATA d] \<and> 0 < remain p \<and>
      (\<exists>a ssn. objs d' a = Some ssn \<and> key ssn = ssn_label p \<and> hash ssn = hash_value p \<and>
         stat (if dir ssn = pdir p then client ssn else server ssn) = ESTABLISHED \<and>
         \<not> updated (if dir ssn = pdir p then client ssn else server ssn) \<and>
         vars p' = vars p @
           [(P_TO_SERVER d, BoolVar (to_server ssn (pdir p))), (P_SEG d, Slice (remain p)),
            (P_SERVER_STAT d, StatVar (server_stat ssn)),
            (P_CLIENT_STAT d, StatVar (client_stat ssn))])) \<and>
   map_option snd (decodes handshake_pkts (fst (TcpSsnDecoder_new no_registry)))
     = Some handshake_dec \<and>
   decode data_pkt handshake_dec = Some (True, data_out, data_dec) \<and>
   events data_out = [EV_DATA handshake_dec] \<and>
   vars data_out =
     [(P_TO_SERVER handshake_dec, BoolVar True), (P_SEG handshake_dec, Slice 100),
      (P_SERVER_STAT handshake_dec, StatVar SYN_RCVD),
      (P_CLIENT_STAT handshake_dec, StatVar ESTABLISHED)] \<and>
   map_option server_stat (objs handshake_dec 0) = Some SYN_RCVD \<and>
   map_option server_stat (objs data_dec 0) = Some SYN_RCVD"
proof -
  have gen: "events p' = events p @ [EV_DATA d] \<and> 0 < remain p \<and>
      (\<exists>a ssn. objs d' a = Some ssn \<and> key ssn = ssn_label p \<and> hash ssn = hash_value p \<and>
         stat (if dir ssn = pdir p then client ssn else server ssn) = ESTABLISHED \<and>
         \<not> updated (if dir ssn = pdir p then client ssn else server ssn) \<and>
         vars p' = vars p @
           [(P_TO_SERVER d, BoolVar (to_server ssn (pdir p))), (P_SEG d, Slice (remain p)),
            (P_SERVER_STAT d, StatVar (server_stat ssn)),
            (P_CLIENT_STAT d, StatVar (client_stat ssn))])"
    if dec: "decode p d = Some (rc, p', d')" and ne: "events p' \<noteq> events p"
  proof -
    from decode_Some [OF dec] obtain d1 calls where
      t: "timeout_session (tv_sec p) d = Some (d1, calls)" by blast
    from decode_after_timeout [OF t] dec obtain a d2 s0 r s where
      s0: "key s0 = ssn_label p" "hash s0 = hash_value p"
      and u: "update (tcp_flags p) (tcp_seq p) (tcp_ack p) (remain p) (pdir p) s0 = Some (r, s)"
      and p': "p' = p\<lparr> vars := vars p @ written d p r s, events := events p @ pushed d p r s \<rparr>"
      and d': "d' = d2\<lparr> objs := (objs d2)(a \<mapsto> s) \<rparr>"
      by auto
    have push: "r \<and> is_data_available s (pdir p) \<and> 0 < remain p"
      using ne p' by (auto simp: pushed_def split: if_splits)
    then have sender: "stat (if dir s = pdir p then client s else server s) = ESTABLISHED \<and>
        \<not> updated (if dir s = pdir p then client s else server s)"
      by (auto simp: is_data_available_def Let_def split: if_splits)
    have "objs d' a = Some s" using d' by simp
    moreover have "key s = ssn_label p \<and> hash s = hash_value p"
      using update_keeps [OF u] s0 by simp
    moreover have "vars p' = vars p @
           [(P_TO_SERVER d, BoolVar (to_server s (pdir p))), (P_SEG d, Slice (remain p)),
            (P_SERVER_STAT d, StatVar (server_stat s)),
            (P_CLIENT_STAT d, StatVar (client_stat s))]"
      using push p' by (simp add: written_def)
    moreover have "events p' = events p @ [EV_DATA d]"
      using push p' by (simp add: pushed_def)
    ultimately show ?thesis using push sender by blast
  qed
  have scen: "events data_out = [EV_DATA handshake_dec] \<and>
   vars data_out =
     [(P_TO_SERVER handshake_dec, BoolVar True), (P_SEG handshake_dec, Slice 100),
      (P_SERVER_STAT handshake_dec, StatVar SYN_RCVD),
      (P_CLIENT_STAT handshake_dec, StatVar ESTABLISHED)] \<and>
   map_option server_stat (objs handshake_dec 0) = Some SYN_RCVD \<and>
   map_option server_stat (objs data_dec 0) = Some SYN_RCVD"
    by (simp add: scenario_defs established_ssn_def server_stat_def)
  show ?thesis
    using gen scen handshake_reached data_pkt_decoded by blast
qed

theorem data_event_sender_established_witness:
  "decode data_pkt handshake_dec = Some (True, data_out, data_dec) \<and>
   events data_out \<noteq> events data_pkt \<and>
   events data_out = events data_pkt @ [EV_DATA handshake_dec] \<and>
   0 < remain data_pkt \<and>
   objs data_dec 0 = Some data_ssn \<and>
   dir data_ssn = pdir data_pkt \<and>
   stat (client data_ssn) = ESTABLISHED \<and> \<not> updated (client data_ssn)"
proof -
  have h1: "decode data_pkt handshake_dec = Some (True, data_out, data_dec)"
    by (rule data_pkt_decoded)
  have h2: "events data_out \<noteq> events data_pkt"
    by (simp add: scenario_defs packet_def)
  have v: "objs data_dec 0 = Some data_ssn \<and> dir data_ssn = pdir data_pkt \<and>
     stat (client data_ssn) = ESTABLISHED \<and> \<not> updated (client data_ssn)"
    by (simp add: scenario_defs packet_def established_ssn_def)
  have "events data_out = events data_pkt @ [EV_DATA handshake_dec] \<and> 0 < remain data_pkt"
    using data_event_sender_established [of data_pkt handshake_dec True data_out data_dec] h1 h2 by blast
  then show ?thesis
    using h1 h2 v by simp
qed

text \<open>
  Claim C2 as stated fails on its own scenario: after the three packets of the handshake
  the fourth packet makes the decoder push \<^verbatim>\<open>tcp_ssn.data\<close> while the server endpoint
  is in SYN_RCVD before and after it; \<^verbatim>\<open>recv\<close> has no transition out of SYN_RCVD.
\<close>

theorem data_event_server_syn_rcvd_counterexample:
  "map_option snd (decodes handshake_pkts (fst (TcpSsnDecoder_new no_registry)))
     = Some handshake_dec \<and>
   decode data_pkt handshake_dec = Some (True, data_out, data_dec) \<and>
   tv_sec data_pkt = 1000 \<and> pdir data_pkt = DIR_L2R \<and> tcp_flags data_pkt = ACK \<and>
   tcp_seq data_pkt = 1001 \<and> tcp_ack data_pkt = 5001 \<and> remain data_pkt = 100 \<and>
   events data_pkt = [] \<and> events data_out = [EV_DATA handshake_dec] \<and>
   map_option server_stat (objs handshake_dec 0) = Some SYN_RCVD \<and>
   map_option server_stat (objs data_dec 0) = Some SYN_RCVD \<and>
   map_option client_stat (objs data_dec 0) = Some ESTABLISHED \<and>
   SYN_RCVD \<noteq> ESTABLISHED"
  using handshake_reached data_pkt_decoded
  by (simp add: scenario_defs packet_def established_ssn_def server_stat_def client_stat_def)

subsection \<open>A packet before the SYN\<close>

lemma timeout_session_next_obj:
  assumes "timeout_session tv d = Some (d1, calls)"
  shows "next_obj d1 = next_obj d \<and> P_SERVER_STAT d1 = P_SERVER_STAT d \<and>
         P_CLIENT_STAT d1 = P_CLIENT_STAT d"
proof -
  have "next_obj d1 = next_obj (d\<lparr> ssn_table := ssn_table d1, last_ts := tv,
        objs := objs d1 \<rparr>) \<and>
     P_SERVER_STAT d1 = P_SERVER_STAT (d\<lparr> ssn_table := ssn_table d1, last_ts := tv,
        objs := objs d1 \<rparr>) \<and>
     P_CLIENT_STAT d1 = P_CLIENT_STAT (d\<lparr> ssn_table := ssn_table d1, last_ts := tv,
        objs := objs d1 \<rparr>)"
    using timeout_session_frame [OF assms] by simp
  then show ?thesis by simp
qed

text \<open>
  Claim C3, amended. For a packet whose masked flags are not exactly SYN and whose flow
  has no session in the table after the timeout pass, \<^verbatim>\<open>decode\<close> creates the session,
  whose direction stays NIL, \<^verbatim>\<open>update\<close> returns false and leaves the session as it
  was, and the decoder pushes no event and writes neither \<^verbatim>\<open>tcp_ssn.to_server\<close> nor
  \<^verbatim>\<open>tcp_ssn.segment\<close>; it writes \<^verbatim>\<open>tcp_ssn.server_stat\<close> and
  \<^verbatim>\<open>tcp_ssn.client_stat\<close>, both CLOSED, as for every packet.
\<close>

theorem pre_syn_packet_ignored:
  "timeout_session (tv_sec p) d = Some (d1, calls) \<and>
   masked (tcp_flags p) \<noteq> SYN \<and> \<not> known_flow p d1 \<longrightarrow>
     (\<exists>d'. decode p d =
         Some (True,
               p\<lparr> vars := vars p @ [(P_SERVER_STAT d, StatVar CLOSED),
                                     (P_CLIENT_STAT d, StatVar CLOSED)] \<rparr>,
               d') \<and>
        objs d' (next_obj d) =
          Some ((TcpSession_new (ssn_label p) (hash_value p))\<lparr> ts := tv_sec p \<rparr>)) \<and>
     dir ((TcpSession_new (ssn_label p) (hash_value p))\<lparr> ts := tv_sec p \<rparr>) = DIR_NIL \<and>
     update (tcp_flags p) (tcp_seq p) (tcp_ack p) (remain p) (pdir p)
        ((TcpSession_new (ssn_label p) (hash_value p))\<lparr> ts := tv_sec p \<rparr>)
       = Some (False, (TcpSession_new (ssn_label p) (hash_value p))\<lparr> ts := tv_sec p \<rparr>)"
proof
  assume h: "timeout_session (tv_sec p) d = Some (d1, calls) \<and>
             masked (tcp_flags p) \<noteq> SYN \<and> \<not> known_flow p d1"
  then have t: "timeout_session (tv_sec p) d = Some (d1, calls)" by simp
  let ?s = "(TcpSession_new (ssn_label p) (hash_value p))\<lparr> ts := tv_sec p \<rparr>"
  let ?d2 = "d1\<lparr> objs := (objs d1)(next_obj d1 \<mapsto> ?s), next_obj := Suc (next_obj d1),
                 ssn_table := LRU_put (unat TIMEOUT) (next_obj d1) (ssn_table d1) \<rparr>"
  have miss: "LRU_get (objs d1) (hash_value p) (ssn_label p) (ssn_table d1) = None"
    using h by (simp add: known_flow_def)
  have f: "fetch_session p d1 = (next_obj d1, ?d2)"
    using fetch_session_new [OF miss] .
  have o: "objs ?d2 (next_obj d1) = Some ?s"
    by simp
  have nil: "dir ?s = DIR_NIL"
    by (simp add: TcpSession_new_def)
  have u: "update (tcp_flags p) (tcp_seq p) (tcp_ack p) (remain p) (pdir p) ?s = Some (False, ?s)"
    using update_pre_syn [OF nil] h by simp
  have st: "server_stat ?s = CLOSED" "client_stat ?s = CLOSED"
    by (simp_all add: server_stat_def client_stat_def TcpSession_new_def Node_new_def)
  have "decode p d =
     Some (True,
           p\<lparr> vars := vars p @ [(P_SERVER_STAT d, StatVar CLOSED),
                                 (P_CLIENT_STAT d, StatVar CLOSED)] \<rparr>,
           ?d2\<lparr> objs := (objs ?d2)(next_obj d1 \<mapsto> ?s) \<rparr>)"
    using decode_eq [OF t f o u] st by (simp add: written_def pushed_def)
  moreover have "objs (?d2\<lparr> objs := (objs ?d2)(next_obj d1 \<mapsto> ?s) \<rparr>) (next_obj d) = Some ?s"
    using timeout_session_next_obj [OF t] by simp
  ultimately show "(\<exists>d'. decode p d =
         Some (True,
               p\<lparr> vars := vars p @ [(P_SERVER_STAT d, StatVar CLOSED),
                                     (P_CLIENT_STAT d, StatVar CLOSED)] \<rparr>,
               d') \<and>
        objs d' (next_obj d) = Some ?s) \<and>
     dir ?s = DIR_NIL \<and>
     update (tcp_flags p) (tcp_seq p) (tcp_ack p) (remain p) (pdir p) ?s = Some (False, ?s)"
    using nil u by blast
qed

lemma new_decoder_timeout:
  "timeout_session 1000 (fst (TcpSsnDecoder_new no_registry))
     = Some ((fst (TcpSsnDecoder_new no_registry))\<lparr> last_ts := 1000 \<rparr>, [])"
  by (simp add: decoder_defs)

theorem pre_syn_packet_ignored_witness:
  "timeout_session (tv_sec pre_syn_pkt) (fst (TcpSsnDecoder_new no_registry))
     = Some ((fst (TcpSsnDecoder_new no_registry))\<lparr> last_ts := 1000 \<rparr>, []) \<and>
   masked (tcp_flags pre_syn_pkt) \<noteq> SYN \<and>
   \<not> known_flow pre_syn_pkt ((fst (TcpSsnDecoder_new no_registry))\<lparr> last_ts := 1000 \<rparr>) \<and>
   map_option (fst \<circ> snd) (decode pre_syn_pkt (fst (TcpSsnDecoder_new no_registry)))
     = Some (pre_syn_pkt\<lparr> vars := [(2, StatVar CLOSED), (3, StatVar CLOSED)] \<rparr>) \<and>
   update ACK 1001 5001 50 DIR_L2R ((TcpSession_new flow_a 1)\<lparr> ts := 1000 \<rparr>)
     = Some (False, (TcpSession_new flow_a 1)\<lparr> ts := 1000 \<rparr>)"
proof -
  let ?d = "fst (TcpSsnDecoder_new no_registry)"
  have v: "vars pre_syn_pkt = [] \<and> P_SERVER_STAT ?d = 2 \<and> P_CLIENT_STAT ?d = 3 \<and>
      tcp_flags pre_syn_pkt = ACK \<and> tcp_seq pre_syn_pkt = 1001 \<and> tcp_ack pre_syn_pkt = 5001 \<and>
      remain pre_syn_pkt = 50 \<and> pdir pre_syn_pkt = DIR_L2R \<and> ssn_label pre_syn_pkt = flow_a \<and>
      hash_value pre_syn_pkt = 1 \<and> tv_sec pre_syn_pkt = 1000"
    by (simp add: pre_syn_pkt_def packet_def TcpSsnDecoder_new_def assign_event_def
        assign_value_def no_registry_def)
  have h0: "timeout_session (tv_sec pre_syn_pkt) ?d = Some (?d\<lparr> last_ts := 1000 \<rparr>, [])"
    using v new_decoder_timeout by simp
  have h1: "masked (tcp_flags pre_syn_pkt) \<noteq> SYN"
    by (simp add: pre_syn_pkt_def packet_def masked_def flag_defs)
  have h2: "\<not> known_flow pre_syn_pkt (?d\<lparr> last_ts := 1000 \<rparr>)"
    by (simp add: known_flow_def decoder_defs scenario_defs)
  show ?thesis
    using h0 h1 h2 v
      pre_syn_packet_ignored [of pre_syn_pkt ?d "?d\<lparr> last_ts := 1000 \<rparr>" "[]"]
    by auto
qed

text \<open>
  Claim C3 as stated fails: for the packet (L2R, ACK, 1001, 5001, 50) on a new decoder
  the Property receives two attributes, the server's and the client's state.
\<close>

theorem pre_syn_packet_writes_stat_counterexample:
  "vars pre_syn_pkt = [] \<and>
   map_option (vars \<circ> fst \<circ> snd) (decode pre_syn_pkt (fst (TcpSsnDecoder_new no_registry)))
     = Some [(P_SERVER_STAT (fst (TcpSsnDecoder_new no_registry)), StatVar CLOSED),
             (P_CLIENT_STAT (fst (TcpSsnDecoder_new no_registry)), StatVar CLOSED)]"
  by (simp add: decoder_defs eval_defs scenario_defs)


subsection \<open>A full table\<close>



















end
